theory Spec2Isabelle
  imports Complex_Main
begin

section \<open>The investment problem: a model of day_4/investment_jax.ipynb\<close>

text \<open>
  The notebook computes with 64-bit floating-point arrays. Here every float is a
  \<^typ>\<open>real\<close>: the theory is about the arithmetic the code denotes, exactly, and says
  nothing about rounding. Arrays are kept the way NumPy and JAX keep them: a shape and
  the elements in row-major order, so that \<open>reshape\<close> only replaces the shape.
\<close>

subsection \<open>Errors as values\<close>

datatype error =
    ReshapeError
  | BroadcastError
  | IndexError
  | AxisError
  | EmptyReduction
  | MatmulError
  | ZeroDivisionError

type_synonym 'a result = "error + 'a"

definition and_then :: "'a result \<Rightarrow> ('a \<Rightarrow> 'b result) \<Rightarrow> 'b result" where
  "and_then m f = (case m of Inl e \<Rightarrow> Inl e | Inr x \<Rightarrow> f x)"

subsection \<open>Arrays\<close>

record 'a ndarray =
  shape :: "nat list"
  data :: "'a list"

definition wf :: "'a ndarray \<Rightarrow> bool" where
  "wf a \<longleftrightarrow> length (data a) = prod_list (shape a)"

text \<open>Row-major offset of a multi-index, and the multi-index of an offset.\<close>

fun ravel :: "nat list \<Rightarrow> nat list \<Rightarrow> nat" where
  "ravel (d # ds) (i # is) = i * prod_list ds + ravel ds is"
| "ravel _ _ = 0"

fun unravel :: "nat list \<Rightarrow> nat \<Rightarrow> nat list" where
  "unravel [] m = []"
| "unravel (d # ds) m = (m div prod_list ds) # unravel ds (m mod prod_list ds)"

definition elem :: "'a ndarray \<Rightarrow> nat list \<Rightarrow> 'a" where
  "elem a idx = data a ! ravel (shape a) idx"

text \<open>The array of shape \<open>s\<close> whose element at multi-index \<open>idx\<close> is \<open>g idx\<close>.\<close>

definition tab :: "nat list \<Rightarrow> (nat list \<Rightarrow> 'a) \<Rightarrow> 'a ndarray" where
  "tab s g = \<lparr>shape = s, data = map (\<lambda>m. g (unravel s m)) [0..<prod_list s]\<rparr>"

definition scalar :: "'a \<Rightarrow> 'a ndarray" where
  "scalar x = \<lparr>shape = [], data = [x]\<rparr>"

definition zeros :: "nat list \<Rightarrow> 'a::zero ndarray" where
  "zeros s = \<lparr>shape = s, data = replicate (prod_list s) 0\<rparr>"

definition arange :: "nat \<Rightarrow> int ndarray" where
  "arange n = \<lparr>shape = [n], data = map int [0..<n]\<rparr>"

text \<open>\<open>jnp.reshape\<close>: the element count must be kept; the elements are not moved.\<close>

definition reshape :: "'a ndarray \<Rightarrow> nat list \<Rightarrow> 'a ndarray result" where
  "reshape a s =
     (if prod_list s = length (data a) then Inr \<lparr>shape = s, data = data a\<rparr>
      else Inl ReshapeError)"

text \<open>
  Broadcasting: shapes are aligned at their last axis, a missing or length-one axis is
  stretched, any other mismatch is an error.
\<close>

definition pad :: "nat \<Rightarrow> nat list \<Rightarrow> nat list" where
  "pad n s = replicate (n - length s) 1 @ s"

definition bdim :: "nat \<Rightarrow> nat \<Rightarrow> nat" where
  "bdim d1 d2 = (if d1 = 1 then d2 else d1)"

definition broadcast_shapes :: "nat list \<Rightarrow> nat list \<Rightarrow> nat list result" where
  "broadcast_shapes s1 s2 =
     (let n = max (length s1) (length s2); p1 = pad n s1; p2 = pad n s2
      in if list_all2 (\<lambda>d1 d2. d1 = d2 \<or> d1 = 1 \<or> d2 = 1) p1 p2
         then Inr (map2 bdim p1 p2) else Inl BroadcastError)"

definition clip :: "nat \<Rightarrow> nat \<Rightarrow> nat" where
  "clip d i = (if d = 1 then 0 else i)"

definition bc :: "nat list \<Rightarrow> nat list \<Rightarrow> nat list" where
  "bc s idx = map2 clip s (drop (length idx - length s) idx)"

definition bget :: "'a ndarray \<Rightarrow> nat list \<Rightarrow> 'a" where
  "bget a idx = elem a (bc (shape a) idx)"

definition bop :: "('a \<Rightarrow> 'b \<Rightarrow> 'c) \<Rightarrow> 'a ndarray \<Rightarrow> 'b ndarray \<Rightarrow> 'c ndarray result" where
  "bop f a b =
     and_then (broadcast_shapes (shape a) (shape b))
       (\<lambda>s. Inr (tab s (\<lambda>idx. f (bget a idx) (bget b idx))))"

definition amap :: "('a \<Rightarrow> 'b) \<Rightarrow> 'a ndarray \<Rightarrow> 'b ndarray" where
  "amap f a = \<lparr>shape = shape a, data = map f (data a)\<rparr>"

text \<open>
  Reduction along one axis (\<open>jnp.sum\<close>, \<open>jnp.max\<close>, \<open>jnp.argmax\<close> with \<open>axis=ax\<close>):
  the axis disappears from the shape, and each element of the result is \<open>f\<close> of the
  elements along it, in index order.
\<close>

definition reduce_axis :: "('a list \<Rightarrow> 'b) \<Rightarrow> 'a ndarray \<Rightarrow> nat \<Rightarrow> 'b ndarray result" where
  "reduce_axis f a ax =
     (if length (shape a) \<le> ax then Inl AxisError
      else let pre = take ax (shape a); n = shape a ! ax; post = drop (Suc ax) (shape a);
               q = prod_list post
           in Inr \<lparr>shape = pre @ post,
                   data = map (\<lambda>m. f (map (\<lambda>k. data a ! (((m div q) * n + k) * q + m mod q)) [0..<n]))
                            [0..<prod_list pre * q]\<rparr>)"

definition jnp_sum :: "real ndarray \<Rightarrow> nat \<Rightarrow> real ndarray result" where
  "jnp_sum a ax = reduce_axis sum_list a ax"

text \<open>Maximum of a non-empty list, and the position of its first occurrence.\<close>

fun max_list :: "'a::linorder list \<Rightarrow> 'a" where
  "max_list [] = undefined"
| "max_list [x] = x"
| "max_list (x # xs) = max x (max_list xs)"

fun argmax_list :: "'a::linorder list \<Rightarrow> nat" where
  "argmax_list [] = 0"
| "argmax_list [x] = 0"
| "argmax_list (x # xs) = (let k = argmax_list xs in if x < xs ! k then Suc k else 0)"

text \<open>\<open>max\<close> and \<open>argmax\<close> have no identity: reducing an axis of length zero is an error.\<close>

definition jnp_max :: "real ndarray \<Rightarrow> nat \<Rightarrow> real ndarray result" where
  "jnp_max a ax =
     (if length (shape a) \<le> ax then Inl AxisError
      else if shape a ! ax = 0 then Inl EmptyReduction
      else reduce_axis max_list a ax)"

definition jnp_argmax :: "real ndarray \<Rightarrow> nat \<Rightarrow> int ndarray result" where
  "jnp_argmax a ax =
     (if length (shape a) \<le> ax then Inl AxisError
      else if shape a ! ax = 0 then Inl EmptyReduction
      else reduce_axis (\<lambda>xs. int (argmax_list xs)) a ax)"

text \<open>\<open>np.max\<close> of a whole array.\<close>

definition max_all :: "'a::linorder ndarray \<Rightarrow> 'a result" where
  "max_all a = (if data a = [] then Inl EmptyReduction else Inr (max_list (data a)))"

text \<open>
  Indexing an axis of length \<open>n\<close> with an integer of an index array: a negative index
  counts from the end, and what is still out of range is clamped into the axis (JAX
  does not raise on out-of-range reads).
\<close>

definition norm_index :: "nat \<Rightarrow> int \<Rightarrow> nat" where
  "norm_index n k = nat (max 0 (min (int n - 1) (if k < 0 then k + int n else k)))"

text \<open>
  \<open>a[I\<^sub>1, ..., I\<^sub>k]\<close> with integer index arrays: the index arrays are broadcast
  together to a shape \<open>s\<close>, and the result has shape \<open>s\<close> followed by the axes of
  \<open>a\<close> that were not indexed. An array with fewer than \<open>k\<close> axes is an error, and so is
  an indexed axis of length zero, which has no element to clamp to.
\<close>

fun broadcast_all :: "nat list list \<Rightarrow> nat list result" where
  "broadcast_all [] = Inr []"
| "broadcast_all (s # ss) = and_then (broadcast_all ss) (\<lambda>t. broadcast_shapes s t)"

definition take_nd :: "'a ndarray \<Rightarrow> int ndarray list \<Rightarrow> 'a ndarray result" where
  "take_nd a Is =
     (let lead = take (length Is) (shape a); rest = drop (length Is) (shape a);
          row = prod_list rest
      in if length (shape a) < length Is \<or> 0 \<in> set lead then Inl IndexError
         else and_then (broadcast_all (map shape Is))
           (\<lambda>s. Inr \<lparr>shape = s @ rest,
                     data = concat (map (\<lambda>m.
                         let idx = unravel s m;
                             off = ravel lead (map2 (\<lambda>I d. norm_index d (bget I idx)) Is lead)
                         in map (\<lambda>t. data a ! (off * row + t)) [0..<row])
                       [0..<prod_list s])\<rparr>))"

text \<open>
  \<open>M @ x\<close> for a matrix and a vector, the only operands the notebook gives it (both are
  reshaped just before the product).
\<close>

definition matvec :: "real ndarray \<Rightarrow> real ndarray \<Rightarrow> real ndarray result" where
  "matvec M x =
     (case (shape M, shape x) of
        ([n, k], [k']) \<Rightarrow>
          if k = k'
          then Inr \<lparr>shape = [n],
                    data = map (\<lambda>i. sum_list (map (\<lambda>j. data M ! (i * k + j) * data x ! j) [0..<k]))
                             [0..<n]\<rparr>
          else Inl MatmulError
      | _ \<Rightarrow> Inl MatmulError)"

subsection \<open>Arithmetic on results\<close>

text \<open>
  Operands are evaluated from left to right, and the first error is the error of the
  expression, as with Python's exceptions.
\<close>

definition lift2 ::
  "('a ndarray \<Rightarrow> 'b ndarray \<Rightarrow> 'c ndarray result) \<Rightarrow>
   'a ndarray result \<Rightarrow> 'b ndarray result \<Rightarrow> 'c ndarray result" where
  "lift2 f ma mb = and_then ma (\<lambda>a. and_then mb (\<lambda>b. f a b))"

definition radd :: "real ndarray result \<Rightarrow> real ndarray result \<Rightarrow> real ndarray result" where
  "radd = lift2 (bop (+))"

definition rsub :: "real ndarray result \<Rightarrow> real ndarray result \<Rightarrow> real ndarray result" where
  "rsub = lift2 (bop (-))"

definition rmul :: "real ndarray result \<Rightarrow> real ndarray result \<Rightarrow> real ndarray result" where
  "rmul = lift2 (bop (*))"

definition const :: "real \<Rightarrow> real ndarray result" where
  "const x = Inr (scalar x)"

definition square :: "real ndarray result \<Rightarrow> real ndarray result" where
  "square m = and_then m (\<lambda>a. Inr (amap (\<lambda>x. x ^ 2) a))"

subsection \<open>Primitives and operators\<close>

text \<open>
  The notebook's \<open>T_\<sigma>\<close>, \<open>R_\<sigma>\<close>, \<open>compute_r_\<sigma>\<close>, \<open>compute_P_\<sigma>\<close> and
  \<open>T_\<sigma>_matrix_version\<close> are written \<open>T_sigma\<close>, \<open>R_sigma\<close>, \<open>compute_r_sigma\<close>,
  \<open>compute_P_sigma\<close> and \<open>T_sigma_matrix_version\<close>.
\<close>

type_synonym constants = "real \<times> real \<times> real \<times> real \<times> real"
type_synonym sizes = "nat \<times> nat"
type_synonym arrays = "real ndarray \<times> real ndarray \<times> real ndarray"

text \<open>
  The expression \<open>(a_0 - a_1 * y + z - c) * y - \<gamma> * (yp - y)**2\<close>, which \<open>B\<close> and
  \<open>compute_r_sigma\<close> both evaluate, on arrays of different shapes.
\<close>

definition reward ::
  "real \<Rightarrow> real \<Rightarrow> real \<Rightarrow> real \<Rightarrow>
   real ndarray \<Rightarrow> real ndarray \<Rightarrow> real ndarray \<Rightarrow> real ndarray result" where
  "reward a_0 a_1 \<gamma> c y z yp =
     rsub (rmul (rsub (radd (rsub (const a_0) (rmul (const a_1) (Inr y))) (Inr z)) (const c)) (Inr y))
          (rmul (const \<gamma>) (square (rsub (Inr yp) (Inr y))))"

fun B :: "real ndarray \<Rightarrow> constants \<Rightarrow> sizes \<Rightarrow> arrays \<Rightarrow> real ndarray result" where
  "B v (\<beta>, a_0, a_1, \<gamma>, c) (y_size, z_size) (y_grid, z_grid, Q) =
     and_then (reshape y_grid [y_size, 1, 1]) (\<lambda>y.
     and_then (reshape z_grid [1, z_size, 1]) (\<lambda>z.
     and_then (reshape y_grid [1, 1, y_size]) (\<lambda>yp.
     and_then (reward a_0 a_1 \<gamma> c y z yp) (\<lambda>r.
     and_then (reshape v [1, 1, y_size, z_size]) (\<lambda>v.
     and_then (reshape Q [1, z_size, 1, z_size]) (\<lambda>Q.
     and_then (and_then (rmul (Inr v) (Inr Q)) (\<lambda>vQ. jnp_sum vQ 3)) (\<lambda>EV.
     radd (Inr r) (rmul (const \<beta>) (Inr EV)))))))))"

fun compute_r_sigma :: "int ndarray \<Rightarrow> constants \<Rightarrow> sizes \<Rightarrow> arrays \<Rightarrow> real ndarray result" where
  "compute_r_sigma \<sigma> (\<beta>, a_0, a_1, \<gamma>, c) (y_size, z_size) (y_grid, z_grid, Q) =
     and_then (reshape y_grid [y_size, 1]) (\<lambda>y.
     and_then (reshape z_grid [1, z_size]) (\<lambda>z.
     and_then (take_nd y_grid [\<sigma>]) (\<lambda>yp.
     reward a_0 a_1 \<gamma> c y z yp)))"

fun T :: "real ndarray \<Rightarrow> constants \<Rightarrow> sizes \<Rightarrow> arrays \<Rightarrow> real ndarray result" where
  "T v constants sizes arrays = and_then (B v constants sizes arrays) (\<lambda>b. jnp_max b 2)"

fun get_greedy :: "real ndarray \<Rightarrow> constants \<Rightarrow> sizes \<Rightarrow> arrays \<Rightarrow> int ndarray result" where
  "get_greedy v constants sizes arrays =
     and_then (B v constants sizes arrays) (\<lambda>b. jnp_argmax b 2)"

fun T_sigma :: "real ndarray \<Rightarrow> int ndarray \<Rightarrow> constants \<Rightarrow> sizes \<Rightarrow> arrays \<Rightarrow> real ndarray result" where
  "T_sigma v \<sigma> (\<beta>, a_0, a_1, \<gamma>, c) (y_size, z_size) (y_grid, z_grid, Q) =
     and_then (compute_r_sigma \<sigma> (\<beta>, a_0, a_1, \<gamma>, c) (y_size, z_size) (y_grid, z_grid, Q)) (\<lambda>r_\<sigma>.
     and_then (reshape (arange z_size) [1, 1, z_size]) (\<lambda>zp_idx.
     and_then (reshape \<sigma> [y_size, z_size, 1]) (\<lambda>\<sigma>.
     and_then (take_nd v [\<sigma>, zp_idx]) (\<lambda>V.
     and_then (reshape Q [1, z_size, z_size]) (\<lambda>Q.
     and_then (and_then (rmul (Inr V) (Inr Q)) (\<lambda>VQ. jnp_sum VQ 2)) (\<lambda>Ev.
     radd (Inr r_\<sigma>)
       (rmul (const \<beta>) (and_then (rmul (Inr V) (Inr Q)) (\<lambda>VQ. jnp_sum VQ 2)))))))))"

fun R_sigma :: "real ndarray \<Rightarrow> int ndarray \<Rightarrow> constants \<Rightarrow> sizes \<Rightarrow> arrays \<Rightarrow> real ndarray result" where
  "R_sigma v \<sigma> (\<beta>, a_0, a_1, \<gamma>, c) (y_size, z_size) (y_grid, z_grid, Q) =
     and_then (reshape (arange z_size) [1, 1, z_size]) (\<lambda>zp_idx.
     and_then (reshape \<sigma> [y_size, z_size, 1]) (\<lambda>\<sigma>.
     and_then (take_nd v [\<sigma>, zp_idx]) (\<lambda>V.
     and_then (reshape Q [1, z_size, z_size]) (\<lambda>Q.
     rsub (Inr v)
       (rmul (const \<beta>) (and_then (rmul (Inr V) (Inr Q)) (\<lambda>VQ. jnp_sum VQ 2)))))))"

subsection \<open>Matrix versions\<close>

fun compute_P_sigma :: "int ndarray \<Rightarrow> constants \<Rightarrow> sizes \<Rightarrow> arrays \<Rightarrow> real ndarray result" where
  "compute_P_sigma \<sigma> (\<beta>, a_0, a_1, \<gamma>, c) (y_size, z_size) (y_grid, z_grid, Q) =
     and_then (reshape (arange y_size) [1, 1, y_size, 1]) (\<lambda>yp_idx.
     and_then (reshape \<sigma> [y_size, z_size, 1, 1]) (\<lambda>\<sigma>.
     and_then (bop (\<lambda>s k. if s = k then 1 else (0::int)) \<sigma> yp_idx) (\<lambda>A.
     and_then (reshape Q [1, z_size, 1, z_size]) (\<lambda>Q.
     bop (\<lambda>a q. real_of_int a * q) A Q))))"

fun T_sigma_matrix_version ::
  "real ndarray \<Rightarrow> int ndarray \<Rightarrow> constants \<Rightarrow> sizes \<Rightarrow> arrays \<Rightarrow> real ndarray result" where
  "T_sigma_matrix_version v \<sigma> (\<beta>, a_0, a_1, \<gamma>, c) (y_size, z_size) (y_grid, z_grid, Q) =
     and_then (compute_r_sigma \<sigma> (\<beta>, a_0, a_1, \<gamma>, c) (y_size, z_size) (y_grid, z_grid, Q)) (\<lambda>r_\<sigma>.
     and_then (compute_P_sigma \<sigma> (\<beta>, a_0, a_1, \<gamma>, c) (y_size, z_size) (y_grid, z_grid, Q)) (\<lambda>P_\<sigma>.
     let n = y_size * z_size in
     and_then (reshape P_\<sigma> [n, n]) (\<lambda>P_\<sigma>.
     and_then (reshape r_\<sigma> [n]) (\<lambda>r_\<sigma>.
     and_then (reshape v [n]) (\<lambda>v.
     and_then (radd (Inr r_\<sigma>) (lift2 matvec (rmul (const \<beta>) (Inr P_\<sigma>)) (Inr v))) (\<lambda>new_v.
     reshape new_v [y_size, z_size]))))))"

declare B.simps [simp del] compute_r_sigma.simps [simp del] T.simps [simp del]
  get_greedy.simps [simp del] T_sigma.simps [simp del] R_sigma.simps [simp del]
  compute_P_sigma.simps [simp del] T_sigma_matrix_version.simps [simp del]

subsection \<open>Policy evaluation\<close>

text \<open>
  \<open>get_value\<close> hands the linear map \<open>v \<mapsto> R_sigma v\<close> and the right-hand side \<open>r_\<sigma>\<close> to
  \<open>jax.scipy.sparse.linalg.bicgstab\<close>, and \<open>get_value_matrix_version\<close> hands the matrix
  \<open>I - \<beta> P_\<sigma>\<close> and \<open>r_\<sigma>\<close> to \<open>jnp.linalg.solve\<close>. Both solvers belong to the JAX
  library; they are parameters here.
\<close>

type_synonym iterative_solver =
  "(real ndarray \<Rightarrow> real ndarray result) \<Rightarrow> real ndarray \<Rightarrow> real ndarray result"

type_synonym dense_solver = "real ndarray \<Rightarrow> real ndarray \<Rightarrow> real ndarray result"

definition identity :: "nat \<Rightarrow> real ndarray" where
  "identity n = tab [n, n] (\<lambda>idx. if idx ! 0 = idx ! 1 then 1 else 0)"

fun get_value ::
  "iterative_solver \<Rightarrow> int ndarray \<Rightarrow> constants \<Rightarrow> sizes \<Rightarrow> arrays \<Rightarrow> real ndarray result" where
  "get_value bicgstab \<sigma> (\<beta>, a_0, a_1, \<gamma>, c) (y_size, z_size) (y_grid, z_grid, Q) =
     and_then (compute_r_sigma \<sigma> (\<beta>, a_0, a_1, \<gamma>, c) (y_size, z_size) (y_grid, z_grid, Q)) (\<lambda>r_\<sigma>.
     let partial_R_sigma = (\<lambda>v. R_sigma v \<sigma> (\<beta>, a_0, a_1, \<gamma>, c) (y_size, z_size) (y_grid, z_grid, Q))
     in bicgstab partial_R_sigma r_\<sigma>)"

fun get_value_matrix_version ::
  "dense_solver \<Rightarrow> int ndarray \<Rightarrow> constants \<Rightarrow> sizes \<Rightarrow> arrays \<Rightarrow> real ndarray result" where
  "get_value_matrix_version solve \<sigma> (\<beta>, a_0, a_1, \<gamma>, c) (y_size, z_size) (y_grid, z_grid, Q) =
     and_then (compute_r_sigma \<sigma> (\<beta>, a_0, a_1, \<gamma>, c) (y_size, z_size) (y_grid, z_grid, Q)) (\<lambda>r_\<sigma>.
     and_then (compute_P_sigma \<sigma> (\<beta>, a_0, a_1, \<gamma>, c) (y_size, z_size) (y_grid, z_grid, Q)) (\<lambda>P_\<sigma>.
     let n = y_size * z_size in
     and_then (reshape P_\<sigma> [n, n]) (\<lambda>P_\<sigma>.
     and_then (reshape r_\<sigma> [n]) (\<lambda>r_\<sigma>.
     and_then (and_then (rsub (Inr (identity n)) (rmul (const \<beta>) (Inr P_\<sigma>))) (\<lambda>M. solve M r_\<sigma>)) (\<lambda>v_\<sigma>.
     reshape v_\<sigma> [y_size, z_size])))))"

declare get_value.simps [simp del] get_value_matrix_version.simps [simp del]

subsection \<open>Solvers\<close>

text \<open>What the notebook prints, in order.\<close>

datatype event =
    Completed nat real
  | Warning nat
  | Terminated nat
  | Concluded nat int

text \<open>\<open>np.max(np.abs(a - b))\<close>, the error measure of the loops.\<close>

definition max_abs_diff :: "'a::linordered_idom ndarray \<Rightarrow> 'a ndarray \<Rightarrow> 'a result" where
  "max_abs_diff a b = and_then (bop (-) a b) (\<lambda>d. max_all (amap abs d))"

text \<open>
  The \<open>while\<close> loop of \<open>successive_approx\<close>. The state is \<open>(x, error, k)\<close> and the
  lines printed so far. The loop ends after at most \<open>max_iter\<close> rounds.
\<close>

function sa_loop ::
  "(real ndarray \<Rightarrow> real ndarray result) \<Rightarrow> real \<Rightarrow> nat \<Rightarrow> nat \<Rightarrow> bool \<Rightarrow>
   real ndarray \<times> real \<times> nat \<times> event list \<Rightarrow> (real ndarray \<times> real \<times> nat \<times> event list) result" where
  "sa_loop T' tolerance max_iter print_step verbose (x, err, k, out) =
     (if err > tolerance \<and> k \<le> max_iter then
        (case T' x of Inl e \<Rightarrow> Inl e
         | Inr x_new \<Rightarrow>
           (case max_abs_diff x_new x of Inl e \<Rightarrow> Inl e
            | Inr err' \<Rightarrow>
              if verbose \<and> print_step = 0 then Inl ZeroDivisionError
              else sa_loop T' tolerance max_iter print_step verbose
                     (x_new, err', k + 1,
                      if verbose \<and> k mod print_step = 0 then out @ [Completed k err'] else out)))
      else Inr (x, err, k, out))"
  by pat_completeness auto
termination
  by (relation "measure (\<lambda>(T', tolerance, max_iter, print_step, verbose, x, err, k, out). Suc max_iter - k)")
    auto

declare sa_loop.simps [simp del]

definition successive_approx ::
  "(real ndarray \<Rightarrow> real ndarray result) \<Rightarrow> real ndarray \<Rightarrow> real \<Rightarrow> nat \<Rightarrow> nat \<Rightarrow> bool \<Rightarrow>
   (real ndarray \<times> event list) result" where
  "successive_approx T' x_0 tolerance max_iter print_step verbose =
     and_then (sa_loop T' tolerance max_iter print_step verbose (x_0, tolerance + 1, 1, []))
       (\<lambda>(x, err, k, out).
          Inr (x, if err > tolerance then out @ [Warning max_iter]
                  else if verbose then out @ [Terminated k] else out))"

text \<open>
  \<open>value_iteration\<close> leaves \<open>max_iter\<close>, \<open>print_step\<close> and \<open>verbose\<close> at their defaults;
  its own default for \<open>tol\<close> is \<open>1e-5\<close>.
\<close>

definition default_tol :: real where
  "default_tol = 1 / 100000"

fun value_iteration ::
  "constants \<times> sizes \<times> arrays \<Rightarrow> real \<Rightarrow> (int ndarray \<times> event list) result" where
  "value_iteration (constants, (y_size, z_size), arrays) tol =
     (let T' = (\<lambda>v. T v constants (y_size, z_size) arrays);
          vz = zeros [y_size, z_size]
      in and_then (successive_approx T' vz tol 10000 25 False) (\<lambda>(v_star, out).
         and_then (get_greedy v_star constants (y_size, z_size) arrays) (\<lambda>\<sigma>. Inr (\<sigma>, out))))"

declare value_iteration.simps [simp del]





subsection \<open>Model construction\<close>

record Model =
  model_\<beta> :: real
  model_a_0 :: real
  model_a_1 :: real
  model_\<gamma> :: real
  model_c :: real
  model_y_size :: nat
  model_z_size :: nat
  model_y_grid :: "real ndarray"
  model_z_grid :: "real ndarray"
  model_Q :: "real ndarray"

text \<open>\<open>np.linspace(start, stop, num)\<close>, both ends included.\<close>

definition linspace :: "real \<Rightarrow> real \<Rightarrow> nat \<Rightarrow> real ndarray" where
  "linspace start stop num =
     \<lparr>shape = [num],
      data = (if num = 1 then [start]
              else map (\<lambda>k. start + real k * ((stop - start) / real (num - 1))) [0..<num])\<rparr>"

text \<open>
  \<open>qe.tauchen(\<rho>, \<nu>, n)\<close> belongs to the QuantEcon library: it is a parameter that
  answers the grid \<open>mc.state_values\<close> and the matrix \<open>mc.P\<close>.
\<close>

type_synonym tauchen = "real \<Rightarrow> real \<Rightarrow> nat \<Rightarrow> (real ndarray \<times> real ndarray) result"

definition create_investment_model ::
  "tauchen \<Rightarrow> real \<Rightarrow> real \<Rightarrow> real \<Rightarrow> real \<Rightarrow> real \<Rightarrow> real \<Rightarrow> real \<Rightarrow> nat \<Rightarrow> real \<Rightarrow> real \<Rightarrow> nat \<Rightarrow>
   Model result" where
  "create_investment_model tauchen' r a_0 a_1 \<gamma> c y_min y_max y_size \<rho> \<nu> z_size =
     (if 1 + r = 0 then Inl ZeroDivisionError
      else let \<beta> = 1 / (1 + r);
               y_grid = linspace y_min y_max y_size
           in and_then (tauchen' \<rho> \<nu> z_size) (\<lambda>(z_grid, Q).
              Inr \<lparr>model_\<beta> = \<beta>, model_a_0 = a_0, model_a_1 = a_1, model_\<gamma> = \<gamma>, model_c = c,
                   model_y_size = y_size, model_z_size = z_size,
                   model_y_grid = y_grid, model_z_grid = z_grid, model_Q = Q\<rparr>))"

subsection \<open>Notions used in the statements\<close>

definition has_shape :: "'a ndarray \<Rightarrow> nat list \<Rightarrow> bool" where
  "has_shape a s \<longleftrightarrow> shape a = s \<and> length (data a) = prod_list s"

definition model_shaped :: "sizes \<Rightarrow> arrays \<Rightarrow> bool" where
  "model_shaped sizes arrays \<longleftrightarrow>
     (case sizes of (Ny, Nz) \<Rightarrow> case arrays of (y_grid, z_grid, Q) \<Rightarrow>
        has_shape y_grid [Ny] \<and> has_shape z_grid [Nz] \<and> has_shape Q [Nz, Nz])"

definition row_stochastic :: "real ndarray \<Rightarrow> nat \<Rightarrow> bool" where
  "row_stochastic P n \<longleftrightarrow>
     (\<forall>i<n. \<forall>j<n. 0 \<le> elem P [i, j]) \<and> (\<forall>i<n. (\<Sum>j<n. elem P [i, j]) = 1)"

definition policy_in_range :: "int ndarray \<Rightarrow> nat \<Rightarrow> nat \<Rightarrow> bool" where
  "policy_in_range \<sigma> Ny Nz \<longleftrightarrow> (\<forall>i<Ny. \<forall>j<Nz. 0 \<le> elem \<sigma> [i, j] \<and> elem \<sigma> [i, j] < int Ny)"

definition rew :: "real \<Rightarrow> real \<Rightarrow> real \<Rightarrow> real \<Rightarrow> real \<Rightarrow> real \<Rightarrow> real \<Rightarrow> real" where
  "rew a_0 a_1 \<gamma> c y z yp = (a_0 - a_1 * y + z - c) * y - \<gamma> * (yp - y)\<^sup>2"

definition EVal :: "real ndarray \<Rightarrow> real ndarray \<Rightarrow> nat \<Rightarrow> nat \<Rightarrow> nat \<Rightarrow> real" where
  "EVal v Q Nz j ip = (\<Sum>jp<Nz. elem v [ip, jp] * elem Q [j, jp])"

text \<open>The entry of \<open>B(v)\<close> at \<open>(i, j, ip)\<close>, as the Bellman equation writes it.\<close>

fun B_spec :: "real ndarray \<Rightarrow> constants \<Rightarrow> sizes \<Rightarrow> arrays \<Rightarrow> nat \<Rightarrow> nat \<Rightarrow> nat \<Rightarrow> real" where
  "B_spec v (\<beta>, a_0, a_1, \<gamma>, c) (Ny, Nz) (y_grid, z_grid, Q) i j ip =
     rew a_0 a_1 \<gamma> c (elem y_grid [i]) (elem z_grid [j]) (elem y_grid [ip])
       + \<beta> * EVal v Q Nz j ip"

declare B_spec.simps [simp del]

text \<open>The transition probability from state \<open>(i, j)\<close> to state \<open>(ip, jp)\<close> under \<open>\<sigma>\<close>.\<close>

definition P_spec :: "int ndarray \<Rightarrow> real ndarray \<Rightarrow> nat \<Rightarrow> nat \<Rightarrow> nat \<Rightarrow> nat \<Rightarrow> real" where
  "P_spec \<sigma> Q i j ip jp = (if elem \<sigma> [i, j] = int ip then 1 else 0) * elem Q [j, jp]"

text \<open>The iterates of \<open>T\<close> from the zero array.\<close>

fun iterate_T :: "constants \<Rightarrow> sizes \<Rightarrow> arrays \<Rightarrow> nat \<Rightarrow> real ndarray result" where
  "iterate_T constants (y_size, z_size) arrays 0 = Inr (zeros [y_size, z_size])"
| "iterate_T constants (y_size, z_size) arrays (Suc n) =
     and_then (iterate_T constants (y_size, z_size) arrays n)
       (\<lambda>x. T x constants (y_size, z_size) arrays)"

text \<open>The largest absolute change between iterate \<open>n - 1\<close> and iterate \<open>n\<close>.\<close>

definition step_change :: "constants \<Rightarrow> sizes \<Rightarrow> arrays \<Rightarrow> nat \<Rightarrow> real result" where
  "step_change constants sizes arrays n =
     and_then (iterate_T constants sizes arrays n) (\<lambda>x_new.
     and_then (iterate_T constants sizes arrays (n - 1)) (\<lambda>x. max_abs_diff x_new x))"

subsection \<open>Stand-ins for the library solvers\<close>



text \<open>
  In place of \<open>qe.tauchen\<close>: \<open>n\<close> equally likely shock levels between \<open>-\<nu>\<close> and \<open>\<nu>\<close>,
  drawn afresh in every period.
\<close>

definition iid_chain :: tauchen where
  "iid_chain \<rho> \<nu> n =
     Inr (linspace (- \<nu>) \<nu> n, \<lparr>shape = [n, n], data = replicate (n * n) (1 / real n)\<rparr>)"

subsection \<open>Index arithmetic\<close>

lemma ravel_less: "list_all2 (<) idx s \<Longrightarrow> ravel s idx < prod_list s"
proof (induction s arbitrary: idx)
  case Nil
  then show ?case by simp
next
  case (Cons d ds)
  then obtain i js where idx: "idx = i # js" and i: "i < d" and js: "list_all2 (<) js ds"
    by (auto simp: list_all2_Cons2)
  have r: "ravel ds js < prod_list ds" using Cons.IH [OF js] .
  have "i * prod_list ds + ravel ds js < Suc i * prod_list ds" using r by simp
  also have "\<dots> \<le> d * prod_list ds" using i by (intro mult_le_mono1) simp
  finally show ?case by (simp add: idx)
qed

lemma unravel_ravel: "list_all2 (<) idx s \<Longrightarrow> unravel s (ravel s idx) = idx"
proof (induction s arbitrary: idx)
  case Nil
  then show ?case by simp
next
  case (Cons d ds)
  then obtain i js where idx: "idx = i # js" and i: "i < d" and js: "list_all2 (<) js ds"
    by (auto simp: list_all2_Cons2)
  have r: "ravel ds js < prod_list ds" using ravel_less [OF js] .
  show ?case using r Cons.IH [OF js] by (simp add: idx)
qed

lemma unravel_inb: "m < prod_list s \<Longrightarrow> list_all2 (<) (unravel s m) s"
proof (induction s arbitrary: m)
  case Nil
  then show ?case by simp
next
  case (Cons d ds)
  have pos: "0 < prod_list ds" using Cons.prems by (cases "prod_list ds = 0") auto
  have "m div prod_list ds < d"
    using Cons.prems pos by (simp add: less_mult_imp_div_less mult.commute)
  moreover have "list_all2 (<) (unravel ds (m mod prod_list ds)) ds"
    using pos by (intro Cons.IH) simp
  ultimately show ?case by simp
qed

lemma ravel_unravel: "m < prod_list s \<Longrightarrow> ravel s (unravel s m) = m"
proof (induction s arbitrary: m)
  case Nil
  then show ?case by simp
next
  case (Cons d ds)
  have pos: "0 < prod_list ds" using Cons.prems by (cases "prod_list ds = 0") auto
  have "ravel ds (unravel ds (m mod prod_list ds)) = m mod prod_list ds"
    using pos by (intro Cons.IH) simp
  then show ?case by simp
qed

lemma elem_tab: "list_all2 (<) idx s \<Longrightarrow> elem (tab s g) idx = g idx"
  by (simp add: elem_def tab_def ravel_less unravel_ravel)

lemma tab_cong: "(\<And>idx. list_all2 (<) idx s \<Longrightarrow> g idx = g' idx) \<Longrightarrow> tab s g = tab s g'"
  by (simp add: tab_def unravel_inb)

lemma wf_tab:
  fixes a :: "'a ndarray"
  assumes "wf a"
  shows "tab (shape a) (elem a) = a"
proof -
  have l: "length (data a) = prod_list (shape a)" using assms by (simp add: wf_def)
  have "map (\<lambda>m. data a ! ravel (shape a) (unravel (shape a) m)) [0..<prod_list (shape a)]
      = map ((!) (data a)) [0..<length (data a)]"
    unfolding l by (rule map_cong) (simp_all add: ravel_unravel)
  then show ?thesis by (simp add: tab_def elem_def map_nth)
qed

lemma shape_tab: "shape (tab s g) = s" by (simp add: tab_def)

lemma reshape_tab:
  "reshape (tab s g) s' =
     (if prod_list s' = prod_list s then Inr (tab s' (\<lambda>idx. g (unravel s (ravel s' idx))))
      else Inl ReshapeError)"
  by (simp add: reshape_def tab_def ravel_unravel)

lemma clip_less:
  assumes "i < bdim d1 d2" and "d1 = d2 \<or> d1 = 1 \<or> d2 = 1"
  shows "clip d1 i < d1" and "clip d2 i < d2"
  using assms by (auto simp: clip_def bdim_def split: if_splits)

lemma pad_nth: "length s \<le> n \<Longrightarrow> i < length s \<Longrightarrow> pad n s ! (n - length s + i) = s ! i"
proof -
  assume a: "length s \<le> n" "i < length s"
  then have "\<not> n - length s + i < n - length s" and "n - length s + i - (n - length s) = i"
    by simp_all
  then show ?thesis by (simp add: pad_def nth_append del: replicate_eq_replicate)
qed

lemma bc_nth:
  "length s \<le> length idx \<Longrightarrow> i < length s \<Longrightarrow>
     bc s idx ! i = clip (s ! i) (idx ! (length idx - length s + i))"
  by (simp add: bc_def)

lemma length_bc: "length s \<le> length idx \<Longrightarrow> length (bc s idx) = length s"
  by (simp add: bc_def)

lemma bc_inb:
  assumes "broadcast_shapes s1 s2 = Inr s" and "list_all2 (<) idx s"
  shows "list_all2 (<) (bc s1 idx) s1" and "list_all2 (<) (bc s2 idx) s2"
proof -
  define n where "n = max (length s1) (length s2)"
  have n1: "length s1 \<le> n" and n2: "length s2 \<le> n" by (simp_all add: n_def)
  have l1: "length (pad n s1) = n" and l2: "length (pad n s2) = n"
    using n1 n2 by (simp_all add: pad_def)
  from assms(1) have cs: "list_all2 (\<lambda>d1 d2. d1 = d2 \<or> d1 = 1 \<or> d2 = 1) (pad n s1) (pad n s2) \<and>
      s = map2 bdim (pad n s1) (pad n s2)"
    unfolding broadcast_shapes_def Let_def n_def by (simp split: if_splits)
  have ls: "length s = n" using cs l1 l2 by simp
  have li: "length idx = n" using assms(2) ls by (simp add: list_all2_lengthD)
  have k: "idx ! k < bdim (pad n s1 ! k) (pad n s2 ! k) \<and>
             (pad n s1 ! k = pad n s2 ! k \<or> pad n s1 ! k = 1 \<or> pad n s2 ! k = 1)" if "k < n" for k
  proof -
    have "idx ! k < s ! k" using assms(2) that li by (simp add: list_all2_conv_all_nth)
    moreover have "s ! k = bdim (pad n s1 ! k) (pad n s2 ! k)"
      using cs l1 l2 that by simp
    moreover have "pad n s1 ! k = pad n s2 ! k \<or> pad n s1 ! k = 1 \<or> pad n s2 ! k = 1"
      using cs l1 that by (simp add: list_all2_conv_all_nth)
    ultimately show ?thesis by simp
  qed
  show "list_all2 (<) (bc s1 idx) s1"
    unfolding list_all2_conv_all_nth
  proof (intro conjI allI impI)
    show "length (bc s1 idx) = length s1" using n1 li by (simp add: length_bc)
    fix i assume "i < length (bc s1 idx)"
    then have i: "i < length s1" using n1 li by (simp add: length_bc)
    then have "n - length s1 + i < n" using n1 by simp
    from k [OF this] have "clip (s1 ! i) (idx ! (n - length s1 + i)) < s1 ! i"
      using clip_less(1) pad_nth [OF n1 i] by metis
    then show "bc s1 idx ! i < s1 ! i" using bc_nth [of s1 idx i] n1 li i by simp
  qed
  show "list_all2 (<) (bc s2 idx) s2"
    unfolding list_all2_conv_all_nth
  proof (intro conjI allI impI)
    show "length (bc s2 idx) = length s2" using n2 li by (simp add: length_bc)
    fix i assume "i < length (bc s2 idx)"
    then have i: "i < length s2" using n2 li by (simp add: length_bc)
    then have "n - length s2 + i < n" using n2 by simp
    from k [OF this] have "clip (s2 ! i) (idx ! (n - length s2 + i)) < s2 ! i"
      using clip_less(2) pad_nth [OF n2 i] by metis
    then show "bc s2 idx ! i < s2 ! i" using bc_nth [of s2 idx i] n2 li i by simp
  qed
qed


lemma bop_tab:
  "bop f (tab s1 g1) (tab s2 g2) =
     (case broadcast_shapes s1 s2 of Inl e \<Rightarrow> Inl e
      | Inr s \<Rightarrow> Inr (tab s (\<lambda>idx. f (g1 (bc s1 idx)) (g2 (bc s2 idx)))))"
proof (cases "broadcast_shapes s1 s2")
  case (Inl e)
  then show ?thesis by (simp add: bop_def and_then_def shape_tab)
next
  case (Inr s)
  have "tab s (\<lambda>idx. f (bget (tab s1 g1) idx) (bget (tab s2 g2) idx))
      = tab s (\<lambda>idx. f (g1 (bc s1 idx)) (g2 (bc s2 idx)))"
    by (rule tab_cong) (simp add: bget_def shape_tab elem_tab bc_inb [OF Inr])
  then show ?thesis using Inr by (simp add: bop_def and_then_def shape_tab)
qed

lemma unravel_snoc: "k < n \<Longrightarrow> m < prod_list s \<Longrightarrow> unravel (s @ [n]) (m * n + k) = unravel s m @ [k]"
proof (induction s arbitrary: m)
  case Nil
  then show ?case by simp
next
  case (Cons d ds)
  have pos: "0 < prod_list ds" using Cons.prems by (cases "prod_list ds = 0") auto
  have d: "(m * n + k) div (prod_list ds * n) = m div prod_list ds"
    using Cons.prems by (simp add: mult.commute [of _ n] div_mult2_eq)
  have md: "(m * n + k) mod (prod_list ds * n) = (m mod prod_list ds) * n + k"
    using Cons.prems by (simp add: mult.commute [of _ n] mod_mult2_eq)
  show ?case using Cons.IH [OF Cons.prems(1), of "m mod prod_list ds"] pos by (simp add: d md)
qed

lemma reduce_last_tab:
  assumes "ax = length s"
  shows "reduce_axis f (tab (s @ [n]) g) ax =
     Inr (tab s (\<lambda>idx. f (map (\<lambda>k. g (idx @ [k])) [0..<n])))"
proof -
  have lt: "m * n + k < prod_list s * n" if "m < prod_list s" "k < n" for m k
  proof -
    have "m * n + k < Suc m * n" using that by simp
    also have "\<dots> \<le> prod_list s * n" using that by (intro mult_le_mono1) simp
    finally show ?thesis .
  qed
  have inner: "map (\<lambda>k. data (tab (s @ [n]) g) ! (m * n + k)) [0..<n] = map (\<lambda>k. g (unravel s m @ [k])) [0..<n]"
    if "m < prod_list s" for m
    by (rule map_cong) (simp_all add: tab_def lt that unravel_snoc)
  have "map (\<lambda>m. f (map (\<lambda>k. data (tab (s @ [n]) g) ! (m * n + k)) [0..<n])) [0..<prod_list s]
     = map (\<lambda>m. f (map (\<lambda>k. g (unravel s m @ [k])) [0..<n])) [0..<prod_list s]"
    by (rule map_cong) (simp_all add: inner)
  then show ?thesis
    using assms by (simp add: reduce_axis_def shape_tab Let_def nth_append tab_def)
qed

lemma broadcast_nil1: "broadcast_shapes [] s = Inr s"
proof -
  have "list_all2 (\<lambda>d1 d2. d1 = d2 \<or> d1 = 1 \<or> d2 = 1) (replicate (length s) 1) s"
    by (simp add: list_all2_conv_all_nth)
  moreover have "map2 bdim (replicate (length s) 1) s = s"
    by (simp add: zip_replicate1 bdim_def comp_def map_idI)
  ultimately show ?thesis by (simp add: broadcast_shapes_def pad_def)
qed

lemma broadcast_nil2: "broadcast_shapes s [] = Inr s"
proof -
  have "list_all2 (\<lambda>d1 d2. d1 = d2 \<or> d1 = 1 \<or> d2 = 1) s (replicate (length s) 1)"
    by (simp add: list_all2_conv_all_nth)
  moreover have "map2 bdim s (replicate (length s) 1) = s"
    by (simp add: zip_replicate2 bdim_def comp_def map_idI)
  ultimately show ?thesis by (simp add: broadcast_shapes_def pad_def)
qed

lemma scalar_tab: "scalar x = tab [] (\<lambda>_. x)"
  by (simp add: scalar_def tab_def)

lemma bc_nil: "bc [] idx = []" by (simp add: bc_def)

subsection \<open>The operations on tables\<close>

lemma has_shape_tab: "has_shape a s \<Longrightarrow> a = tab s (elem a)"
  using wf_tab [of a] by (simp add: has_shape_def wf_def)

lemma has_shape_tab2 [simp]: "has_shape (tab s g) s"
  by (simp add: has_shape_def tab_def)

lemma and_then_simps [simp]: "and_then (Inr x) f = f x" "and_then (Inl e) f = Inl e"
  by (simp_all add: and_then_def)

lemma lift2_Inr [simp]: "lift2 f (Inr a) (Inr b) = f a b"
  by (simp add: lift2_def)

lemma bdim_simps [simp]:
  "bdim d 1 = d" "bdim 1 d = d" "bdim d d = d" "bdim d (Suc 0) = d" "bdim (Suc 0) d = d"
  by (simp_all add: bdim_def)

lemma clip_simps [simp]: "clip 1 i = 0" "clip (Suc 0) i = 0" "i < d \<Longrightarrow> clip d i = i"
  by (auto simp: clip_def)

lemma amap_tab: "amap f (tab s g) = tab s (\<lambda>idx. f (g idx))"
  by (simp add: amap_def tab_def)

lemma reduce_tab3:
  "reduce_axis f (tab [a, b, n] g) 2 =
     Inr (tab [a, b] (\<lambda>idx. f (map (\<lambda>k. g (idx @ [k])) [0..<n])))"
  using reduce_last_tab [of 2 "[a, b]" f n g] by simp

lemma reduce_tab4:
  "reduce_axis f (tab [a, b, c, n] g) 3 =
     Inr (tab [a, b, c] (\<lambda>idx. f (map (\<lambda>k. g (idx @ [k])) [0..<n])))"
  using reduce_last_tab [of 3 "[a, b, c]" f n g] by simp

lemma inb2: "list_all2 (<) idx [a, b] \<longleftrightarrow> (\<exists>i j. idx = [i, j] \<and> i < a \<and> j < b)"
  by (auto simp: list_all2_Cons2)

lemma inb3:
  "list_all2 (<) idx [a, b, c] \<longleftrightarrow> (\<exists>i j k. idx = [i, j, k] \<and> i < a \<and> j < b \<and> k < c)"
  by (auto simp: list_all2_Cons2)

lemmas arith_defs = radd_def rsub_def rmul_def const_def square_def scalar_tab

lemmas broadcast_simps =
  broadcast_nil1 broadcast_nil2 broadcast_shapes_def pad_def Let_def bc_nil

lemma sum_list_upt: "sum_list (map f [0..<n]) = (\<Sum>k<n. f k)"
  by (simp add: interv_sum_list_conv_sum_set_nat atLeast0LessThan)

subsection \<open>The array \<open>B(v)\<close>\<close>

lemma B_tab:
  assumes "has_shape y_grid [Ny]" "has_shape z_grid [Nz]" "has_shape Q [Nz, Nz]"
    and "has_shape v [Ny, Nz]"
  shows "B v (\<beta>, a_0, a_1, \<gamma>, c) (Ny, Nz) (y_grid, z_grid, Q) =
    Inr (tab [Ny, Nz, Ny] (\<lambda>idx.
       rew a_0 a_1 \<gamma> c (elem y_grid [idx ! 0]) (elem z_grid [idx ! 1]) (elem y_grid [idx ! 2])
       + \<beta> * EVal v Q Nz (idx ! 1) (idx ! 2)))"
proof -
  have "B (tab [Ny, Nz] (elem v)) (\<beta>, a_0, a_1, \<gamma>, c) (Ny, Nz)
          (tab [Ny] (elem y_grid), tab [Nz] (elem z_grid), tab [Nz, Nz] (elem Q)) =
    Inr (tab [Ny, Nz, Ny] (\<lambda>idx.
       rew a_0 a_1 \<gamma> c (elem y_grid [idx ! 0]) (elem z_grid [idx ! 1]) (elem y_grid [idx ! 2])
       + \<beta> * EVal v Q Nz (idx ! 1) (idx ! 2)))"
    apply (simp add: B.simps reward_def arith_defs reshape_tab bop_tab amap_tab jnp_sum_def
        reduce_tab4 broadcast_simps)
    apply (rule tab_cong)
    apply (auto simp: inb3 bc_def rew_def EVal_def sum_list_upt)
    done
  then show ?thesis
    using assms by (simp flip: has_shape_tab)
qed

text \<open>
  C1. For a model whose grids and transition matrix have the shapes \<open>(Ny)\<close>, \<open>(Nz)\<close> and
  \<open>(Nz, Nz)\<close> and a value array \<open>v\<close> of shape \<open>(Ny, Nz)\<close>, \<open>B(v)\<close> is the array of shape
  \<open>(Ny, Nz, Ny)\<close> whose entry \<open>(i, j, ip)\<close> is the reward
  \<open>(a_0 - a_1 y[i] + z[j] - c) y[i] - \<gamma> (y[ip] - y[i])\<^sup>2\<close> plus \<open>\<beta>\<close> times the sum over
  \<open>jp\<close> of \<open>v[ip, jp] Q[j, jp]\<close>; the sum depends on \<open>j\<close> through \<open>Q\<close> only.
\<close>

theorem B_entries:
  assumes "model_shaped (Ny, Nz) (y_grid, z_grid, Q)" and "has_shape v [Ny, Nz]"
  shows "\<exists>b. B v (\<beta>, a_0, a_1, \<gamma>, c) (Ny, Nz) (y_grid, z_grid, Q) = Inr b \<and>
    has_shape b [Ny, Nz, Ny] \<and>
    (\<forall>i<Ny. \<forall>j<Nz. \<forall>ip<Ny.
       elem b [i, j, ip] =
         (a_0 - a_1 * elem y_grid [i] + elem z_grid [j] - c) * elem y_grid [i]
           - \<gamma> * (elem y_grid [ip] - elem y_grid [i])\<^sup>2
         + \<beta> * (\<Sum>jp<Nz. elem v [ip, jp] * elem Q [j, jp]))"
proof -
  from assms(1) have m: "has_shape y_grid [Ny]" "has_shape z_grid [Nz]" "has_shape Q [Nz, Nz]"
    by (simp_all add: model_shaped_def)
  show ?thesis
    unfolding B_tab [OF m assms(2)]
    by (simp add: elem_tab rew_def EVal_def)
qed

theorem B_entries_witness:
  "\<exists>b. B \<lparr>shape = [2, 2], data = [1, 2, 3, 4]\<rparr> (1 / 2, 10, 1, 25, 1) (2, 2)
          (\<lparr>shape = [2], data = [0, 1]\<rparr>, \<lparr>shape = [2], data = [-1, 1]\<rparr>,
           \<lparr>shape = [2, 2], data = [1 / 2, 1 / 2, 1 / 4, 3 / 4]\<rparr>) = Inr b \<and>
       has_shape b [2, 2, 2] \<and> elem b [1, 1, 0] = -16 + 1 / 2 * (7 / 4)"
proof -
  have m: "model_shaped (2, 2)
      (\<lparr>shape = [2], data = [0, 1]\<rparr>, \<lparr>shape = [2], data = [-1, 1]\<rparr>,
       \<lparr>shape = [2, 2], data = [1 / 2, 1 / 2, 1 / 4, 3 / 4 :: real]\<rparr>)"
    by (simp add: model_shaped_def has_shape_def)
  have v: "has_shape \<lparr>shape = [2, 2], data = [1, 2, 3, 4 :: real]\<rparr> [2, 2]"
    by (simp add: has_shape_def)
  from B_entries [OF m v, of "1 / 2" 10 1 25 1] obtain b where
    b: "B \<lparr>shape = [2, 2], data = [1, 2, 3, 4]\<rparr> (1 / 2, 10, 1, 25, 1) (2, 2)
          (\<lparr>shape = [2], data = [0, 1]\<rparr>, \<lparr>shape = [2], data = [-1, 1]\<rparr>,
           \<lparr>shape = [2, 2], data = [1 / 2, 1 / 2, 1 / 4, 3 / 4]\<rparr>) = Inr b"
      "has_shape b [2, 2, 2]"
    and e: "\<forall>i<2. \<forall>j<2. \<forall>ip<2. elem b [i, j, ip] =
         (10 - 1 * elem \<lparr>shape = [2], data = [0, 1]\<rparr> [i] + elem \<lparr>shape = [2], data = [-1, 1]\<rparr> [j] - 1)
            * elem \<lparr>shape = [2], data = [0, 1]\<rparr> [i]
           - 25 * (elem \<lparr>shape = [2], data = [0, 1]\<rparr> [ip] - elem \<lparr>shape = [2], data = [0, 1]\<rparr> [i])\<^sup>2
         + 1 / 2 * (\<Sum>jp<2. elem \<lparr>shape = [2, 2], data = [1, 2, 3, 4]\<rparr> [ip, jp]
                * elem \<lparr>shape = [2, 2], data = [1 / 2, 1 / 2, 1 / 4, 3 / 4]\<rparr> [j, jp])"
    by blast
  have "elem b [1, 1, 0] = -16 + 1 / 2 * (7 / 4)"
    using e [rule_format, of 1 1 0] by (simp add: elem_def lessThan_nat_numeral lessThan_Suc)
  with b show ?thesis by blast
qed

subsection \<open>The Bellman operator and the greedy policy\<close>

lemma max_list_Max: "xs \<noteq> [] \<Longrightarrow> max_list xs = Max (set xs)"
  by (induction xs rule: max_list.induct) simp_all

lemma argmax_list_less: "xs \<noteq> [] \<Longrightarrow> argmax_list xs < length xs"
  by (induction xs rule: argmax_list.induct) (simp_all add: Let_def)

lemma argmax_list_max: "xs \<noteq> [] \<Longrightarrow> xs ! argmax_list xs = max_list xs"
  by (induction xs rule: argmax_list.induct) (auto simp: Let_def max_def)

lemma argmax_list_first: "k < argmax_list xs \<Longrightarrow> xs ! k < xs ! argmax_list xs"
proof (induction xs arbitrary: k rule: argmax_list.induct)
  case 1
  then show ?case by simp
next
  case (2 x)
  then show ?case by simp
next
  case (3 x y ys)
  show ?case
  proof (cases "x < (y # ys) ! argmax_list (y # ys)")
    case True
    then have a: "argmax_list (x # y # ys) = Suc (argmax_list (y # ys))" by (simp add: Let_def)
    show ?thesis
    proof (cases k)
      case 0
      then show ?thesis using True a by simp
    next
      case (Suc k')
      then have "k' < argmax_list (y # ys)" using "3.prems" a by simp
      from "3.IH" [OF this] show ?thesis using a Suc by simp
    qed
  next
    case False
    then have "argmax_list (x # y # ys) = 0" by (simp add: Let_def)
    then show ?thesis using "3.prems" by simp
  qed
qed

lemma B_table:
  assumes "model_shaped (Ny, Nz) (y_grid, z_grid, Q)" and "has_shape v [Ny, Nz]"
  shows "B v (\<beta>, a_0, a_1, \<gamma>, c) (Ny, Nz) (y_grid, z_grid, Q) =
    Inr (tab [Ny, Nz, Ny] (\<lambda>idx.
       B_spec v (\<beta>, a_0, a_1, \<gamma>, c) (Ny, Nz) (y_grid, z_grid, Q) (idx ! 0) (idx ! 1) (idx ! 2)))"
  using assms by (simp add: model_shaped_def B_tab B_spec.simps)

lemma T_tab:
  assumes "model_shaped (Ny, Nz) (y_grid, z_grid, Q)" and "has_shape v [Ny, Nz]" and "0 < Ny"
  shows "T v (\<beta>, a_0, a_1, \<gamma>, c) (Ny, Nz) (y_grid, z_grid, Q) =
    Inr (tab [Ny, Nz] (\<lambda>idx. max_list (map
       (B_spec v (\<beta>, a_0, a_1, \<gamma>, c) (Ny, Nz) (y_grid, z_grid, Q) (idx ! 0) (idx ! 1)) [0..<Ny])))"
proof -
  have "tab [Ny, Nz] (\<lambda>idx. max_list (map (\<lambda>k.
        B_spec v (\<beta>, a_0, a_1, \<gamma>, c) (Ny, Nz) (y_grid, z_grid, Q) ((idx @ [k]) ! 0) ((idx @ [k]) ! 1) ((idx @ [k]) ! 2)) [0..<Ny]))
     = tab [Ny, Nz] (\<lambda>idx. max_list (map
       (B_spec v (\<beta>, a_0, a_1, \<gamma>, c) (Ny, Nz) (y_grid, z_grid, Q) (idx ! 0) (idx ! 1)) [0..<Ny]))"
    by (rule tab_cong) (auto simp: inb2)
  then show ?thesis
    using assms(3) unfolding T.simps B_table [OF assms(1,2)]
    by (simp add: jnp_max_def shape_tab reduce_tab3)
qed

lemma get_greedy_tab:
  assumes "model_shaped (Ny, Nz) (y_grid, z_grid, Q)" and "has_shape v [Ny, Nz]" and "0 < Ny"
  shows "get_greedy v (\<beta>, a_0, a_1, \<gamma>, c) (Ny, Nz) (y_grid, z_grid, Q) =
    Inr (tab [Ny, Nz] (\<lambda>idx. int (argmax_list (map
       (B_spec v (\<beta>, a_0, a_1, \<gamma>, c) (Ny, Nz) (y_grid, z_grid, Q) (idx ! 0) (idx ! 1)) [0..<Ny]))))"
proof -
  have "tab [Ny, Nz] (\<lambda>idx. int (argmax_list (map (\<lambda>k.
        B_spec v (\<beta>, a_0, a_1, \<gamma>, c) (Ny, Nz) (y_grid, z_grid, Q) ((idx @ [k]) ! 0) ((idx @ [k]) ! 1) ((idx @ [k]) ! 2)) [0..<Ny])))
     = tab [Ny, Nz] (\<lambda>idx. int (argmax_list (map
       (B_spec v (\<beta>, a_0, a_1, \<gamma>, c) (Ny, Nz) (y_grid, z_grid, Q) (idx ! 0) (idx ! 1)) [0..<Ny])))"
    by (rule tab_cong) (auto simp: inb2)
  then show ?thesis
    using assms(3) unfolding get_greedy.simps B_table [OF assms(1,2)]
    by (simp add: jnp_argmax_def shape_tab reduce_tab3)
qed

text \<open>
  C2. For a value array \<open>v\<close> of shape \<open>(Ny, Nz)\<close> and indices \<open>i < Ny\<close>, \<open>j < Nz\<close>:
  \<open>T(v)[i, j]\<close> is the maximum over \<open>ip\<close> of \<open>B(v)[i, j, ip]\<close>, and
  \<open>get_greedy(v)[i, j]\<close> is an index in \<open>[0, Ny)\<close> at which \<open>B(v)[i, j, \<cdot>]\<close> takes this
  maximum, every smaller index giving a strictly smaller value (the first maximizer).
\<close>

theorem T_greedy_entries:
  assumes "model_shaped (Ny, Nz) (y_grid, z_grid, Q)" and "has_shape v [Ny, Nz]"
    and "i < Ny" and "j < Nz"
  shows "\<exists>b t g. B v (\<beta>, a_0, a_1, \<gamma>, c) (Ny, Nz) (y_grid, z_grid, Q) = Inr b \<and>
      T v (\<beta>, a_0, a_1, \<gamma>, c) (Ny, Nz) (y_grid, z_grid, Q) = Inr t \<and>
      get_greedy v (\<beta>, a_0, a_1, \<gamma>, c) (Ny, Nz) (y_grid, z_grid, Q) = Inr g \<and>
      has_shape t [Ny, Nz] \<and> has_shape g [Ny, Nz] \<and>
      elem t [i, j] = Max ((\<lambda>ip. elem b [i, j, ip]) ` {..<Ny}) \<and>
      0 \<le> elem g [i, j] \<and> elem g [i, j] < int Ny \<and>
      elem b [i, j, nat (elem g [i, j])] = elem t [i, j] \<and>
      (\<forall>ip<nat (elem g [i, j]). elem b [i, j, ip] < elem t [i, j])"
proof -
  let ?c = "(\<beta>, a_0, a_1, \<gamma>, c)" and ?a = "(y_grid, z_grid, Q)"
  let ?xs = "map (B_spec v ?c (Ny, Nz) ?a i j) [0..<Ny]"
  have Ny: "0 < Ny" using assms(3) by simp
  have ne: "?xs \<noteq> []" using Ny by simp
  have k: "argmax_list ?xs < Ny" using argmax_list_less [OF ne] by simp
  have eb: "elem (tab [Ny, Nz, Ny] (\<lambda>idx. B_spec v ?c (Ny, Nz) ?a (idx ! 0) (idx ! 1) (idx ! 2))) [i, j, ip]
      = B_spec v ?c (Ny, Nz) ?a i j ip" if "ip < Ny" for ip
    using that assms(3,4) by (simp add: elem_tab)
  have img: "(\<lambda>ip. elem (tab [Ny, Nz, Ny] (\<lambda>idx. B_spec v ?c (Ny, Nz) ?a (idx ! 0) (idx ! 1) (idx ! 2))) [i, j, ip]) ` {..<Ny}
      = set ?xs"
    using eb by (auto simp: image_iff)
  have mx: "?xs ! argmax_list ?xs = max_list ?xs" by (rule argmax_list_max [OF ne])
  have first: "\<forall>ip<argmax_list ?xs. ?xs ! ip < max_list ?xs"
    using argmax_list_first [of _ ?xs] mx by metis
  show ?thesis
    unfolding B_table [OF assms(1,2)] T_tab [OF assms(1,2) Ny] get_greedy_tab [OF assms(1,2) Ny]
    apply (intro exI conjI)
             apply (rule refl)+
           apply simp
          apply simp
    subgoal using assms(3,4) img by (simp add: elem_tab max_list_Max [OF ne])
    subgoal using assms(3,4) by (simp add: elem_tab)
    subgoal using assms(3,4) k by (simp add: elem_tab)
    subgoal using assms(3,4) k mx by (simp add: elem_tab eb)
    subgoal using assms(3,4) k first by (simp add: elem_tab eb)
    done
qed

theorem T_greedy_entries_witness:
  "\<exists>b t g.
      B \<lparr>shape = [2, 2], data = [1, 2, 3, 4]\<rparr> (1 / 2, 10, 1, 25, 1) (2, 2)
        (\<lparr>shape = [2], data = [0, 1]\<rparr>, \<lparr>shape = [2], data = [-1, 1]\<rparr>,
         \<lparr>shape = [2, 2], data = [1 / 2, 1 / 2, 1 / 4, 3 / 4]\<rparr>) = Inr b \<and>
      T \<lparr>shape = [2, 2], data = [1, 2, 3, 4]\<rparr> (1 / 2, 10, 1, 25, 1) (2, 2)
        (\<lparr>shape = [2], data = [0, 1]\<rparr>, \<lparr>shape = [2], data = [-1, 1]\<rparr>,
         \<lparr>shape = [2, 2], data = [1 / 2, 1 / 2, 1 / 4, 3 / 4]\<rparr>) = Inr t \<and>
      get_greedy \<lparr>shape = [2, 2], data = [1, 2, 3, 4]\<rparr> (1 / 2, 10, 1, 25, 1) (2, 2)
        (\<lparr>shape = [2], data = [0, 1]\<rparr>, \<lparr>shape = [2], data = [-1, 1]\<rparr>,
         \<lparr>shape = [2, 2], data = [1 / 2, 1 / 2, 1 / 4, 3 / 4]\<rparr>) = Inr g \<and>
      has_shape t [2, 2] \<and> has_shape g [2, 2] \<and>
      elem t [1, 0] = Max ((\<lambda>ip. elem b [1, 0, ip]) ` {..<2}) \<and>
      0 \<le> elem g [1, 0] \<and> elem g [1, 0] < int 2 \<and>
      elem b [1, 0, nat (elem g [1, 0])] = elem t [1, 0] \<and>
      (\<forall>ip<nat (elem g [1, 0]). elem b [1, 0, ip] < elem t [1, 0])"
proof -
  have m: "model_shaped (2, 2)
      (\<lparr>shape = [2], data = [0, 1]\<rparr>, \<lparr>shape = [2], data = [-1, 1]\<rparr>,
       \<lparr>shape = [2, 2], data = [1 / 2, 1 / 2, 1 / 4, 3 / 4 :: real]\<rparr>)"
    by (simp add: model_shaped_def has_shape_def)
  have v: "has_shape \<lparr>shape = [2, 2], data = [1, 2, 3, 4 :: real]\<rparr> [2, 2]"
    by (simp add: has_shape_def)
  have i: "(1::nat) < 2" and j: "(0::nat) < 2" by simp_all
  show ?thesis by (rule T_greedy_entries [OF m v i j])
qed

subsection \<open>The policy operator and its matrix version\<close>

lemma bc_id: "list_all2 (<) idx s \<Longrightarrow> bc s idx = idx"
proof -
  assume a: "list_all2 (<) idx s"
  then have l: "length idx = length s" by (rule list_all2_lengthD)
  from a have "map2 clip s idx = idx"
    by (induction idx s rule: list_all2_induct) simp_all
  then show ?thesis by (simp add: bc_def l)
qed

lemma bget_tab: "list_all2 (<) idx s \<Longrightarrow> bget (tab s h) idx = h idx"
  by (simp add: bget_def shape_tab bc_id elem_tab)

lemma norm_index_less: "0 < n \<Longrightarrow> norm_index n k < n"
  by (auto simp: norm_index_def)

lemma norm_index_nat: "0 \<le> k \<Longrightarrow> k < int n \<Longrightarrow> norm_index n k = nat k"
  by (auto simp: norm_index_def)

lemma norm_index_int [simp]: "j < n \<Longrightarrow> norm_index n (int j) = j"
  by (simp add: norm_index_nat)

lemma data_tab1: "k < n \<Longrightarrow> data (tab [n] g) ! k = g [k]"
  by (simp add: tab_def)

lemma take_nd1_tab:
  assumes "0 < n"
  shows "take_nd (tab [n] g) [tab s h] = Inr (tab s (\<lambda>idx. g [norm_index n (h idx)]))"
proof -
  have "map (\<lambda>m. data (tab [n] g) ! norm_index n (bget (tab s h) (unravel s m))) [0..<prod_list s]
      = map (\<lambda>m. g [norm_index n (h (unravel s m))]) [0..<prod_list s]"
    by (rule map_cong) (simp_all add: bget_tab unravel_inb data_tab1 norm_index_less assms)
  then show ?thesis
    using assms by (simp add: take_nd_def shape_tab broadcast_nil2 Let_def tab_def)
qed

lemma data_tab2: "i < a \<Longrightarrow> j < b \<Longrightarrow> data (tab [a, b] g) ! (i * b + j) = g [i, j]"
proof -
  assume a: "i < a" "j < b"
  have "ravel [a, b] [i, j] < prod_list [a, b]" by (rule ravel_less) (simp add: a)
  then show ?thesis using a by (simp add: tab_def)
qed

lemma take_nd2_tab:
  assumes "0 < n1" "0 < n2"
  shows "take_nd (tab [n1, n2] g) [tab s1 h1, tab s2 h2] =
     (case broadcast_shapes s1 s2 of Inl e \<Rightarrow> Inl e
      | Inr s \<Rightarrow> Inr (tab s (\<lambda>idx. g [norm_index n1 (h1 (bc s1 idx)), norm_index n2 (h2 (bc s2 idx))])))"
proof (cases "broadcast_shapes s1 s2")
  case (Inl e)
  then show ?thesis using assms by (simp add: take_nd_def shape_tab broadcast_nil2 Let_def)
next
  case (Inr s)
  have "map (\<lambda>m. data (tab [n1, n2] g) !
            (norm_index n1 (bget (tab s1 h1) (unravel s m)) * n2 + norm_index n2 (bget (tab s2 h2) (unravel s m))))
          [0..<prod_list s]
      = map (\<lambda>m. g [norm_index n1 (h1 (bc s1 (unravel s m))), norm_index n2 (h2 (bc s2 (unravel s m)))])
          [0..<prod_list s]"
    by (rule map_cong)
      (simp_all add: bget_def shape_tab elem_tab bc_inb [OF Inr] unravel_inb data_tab2 norm_index_less assms)
  then show ?thesis
    using assms Inr by (simp add: take_nd_def shape_tab broadcast_nil2 Let_def tab_def)
qed

lemma arange_tab: "arange n = tab [n] (\<lambda>idx. int (idx ! 0))"
  by (simp add: arange_def tab_def)

lemma compute_r_sigma_tab:
  assumes "model_shaped (Ny, Nz) (y_grid, z_grid, Q)" and "has_shape \<sigma> [Ny, Nz]" and "0 < Ny"
  shows "compute_r_sigma \<sigma> (\<beta>, a_0, a_1, \<gamma>, c) (Ny, Nz) (y_grid, z_grid, Q) =
    Inr (tab [Ny, Nz] (\<lambda>idx.
       rew a_0 a_1 \<gamma> c (elem y_grid [idx ! 0]) (elem z_grid [idx ! 1])
         (elem y_grid [norm_index Ny (elem \<sigma> idx)])))"
proof -
  have "compute_r_sigma (tab [Ny, Nz] (elem \<sigma>)) (\<beta>, a_0, a_1, \<gamma>, c) (Ny, Nz)
          (tab [Ny] (elem y_grid), tab [Nz] (elem z_grid), Q) =
    Inr (tab [Ny, Nz] (\<lambda>idx.
       rew a_0 a_1 \<gamma> c (elem y_grid [idx ! 0]) (elem z_grid [idx ! 1])
         (elem y_grid [norm_index Ny (elem \<sigma> idx)])))"
    using assms(3)
    apply (simp add: compute_r_sigma.simps reward_def arith_defs reshape_tab bop_tab amap_tab
        take_nd1_tab broadcast_simps)
    apply (rule tab_cong)
    apply (auto simp: inb2 bc_def rew_def)
    done
  then show ?thesis
    using assms(1,2) by (simp add: model_shaped_def flip: has_shape_tab)
qed


lemma T_sigma_tab:
  assumes "model_shaped (Ny, Nz) (y_grid, z_grid, Q)" and "has_shape v [Ny, Nz]"
    and "has_shape \<sigma> [Ny, Nz]" and "0 < Ny" and "0 < Nz"
  shows "T_sigma v \<sigma> (\<beta>, a_0, a_1, \<gamma>, c) (Ny, Nz) (y_grid, z_grid, Q) =
    Inr (tab [Ny, Nz] (\<lambda>idx.
       B_spec v (\<beta>, a_0, a_1, \<gamma>, c) (Ny, Nz) (y_grid, z_grid, Q) (idx ! 0) (idx ! 1)
         (norm_index Ny (elem \<sigma> idx))))"
proof -
  have "T_sigma (tab [Ny, Nz] (elem v)) (tab [Ny, Nz] (elem \<sigma>)) (\<beta>, a_0, a_1, \<gamma>, c) (Ny, Nz)
          (y_grid, z_grid, tab [Nz, Nz] (elem Q)) =
    Inr (tab [Ny, Nz] (\<lambda>idx.
       B_spec v (\<beta>, a_0, a_1, \<gamma>, c) (Ny, Nz) (y_grid, z_grid, Q) (idx ! 0) (idx ! 1)
         (norm_index Ny (elem \<sigma> idx))))"
    unfolding T_sigma.simps
    apply (subst compute_r_sigma_tab)
    using assms apply (simp_all add: model_shaped_def)[3]
    using assms(4,5)
    apply (simp add: arith_defs reshape_tab bop_tab amap_tab arange_tab
        take_nd2_tab jnp_sum_def reduce_tab3 broadcast_simps)
    apply (rule tab_cong)
    apply (auto simp: inb2 bc_def B_spec.simps EVal_def sum_list_upt elem_tab)
    done
  then show ?thesis
    using assms(1,2,3) by (simp add: model_shaped_def flip: has_shape_tab)
qed


lemma inb4:
  "list_all2 (<) idx [a, b, c, d] \<longleftrightarrow>
     (\<exists>i j k l. idx = [i, j, k, l] \<and> i < a \<and> j < b \<and> k < c \<and> l < d)"
  by (auto simp: list_all2_Cons2)

lemma compute_P_sigma_tab:
  assumes "model_shaped (Ny, Nz) (y_grid, z_grid, Q)" and "has_shape \<sigma> [Ny, Nz]"
  shows "compute_P_sigma \<sigma> (\<beta>, a_0, a_1, \<gamma>, c) (Ny, Nz) (y_grid, z_grid, Q) =
    Inr (tab [Ny, Nz, Ny, Nz] (\<lambda>idx. P_spec \<sigma> Q (idx ! 0) (idx ! 1) (idx ! 2) (idx ! 3)))"
proof -
  have "compute_P_sigma (tab [Ny, Nz] (elem \<sigma>)) (\<beta>, a_0, a_1, \<gamma>, c) (Ny, Nz)
          (y_grid, z_grid, tab [Nz, Nz] (elem Q)) =
    Inr (tab [Ny, Nz, Ny, Nz] (\<lambda>idx. P_spec \<sigma> Q (idx ! 0) (idx ! 1) (idx ! 2) (idx ! 3)))"
    apply (simp add: compute_P_sigma.simps reshape_tab bop_tab arange_tab broadcast_simps)
    apply (rule tab_cong)
    apply (auto simp: inb4 bc_def P_spec_def)
    done
  then show ?thesis
    using assms(1,2) by (simp add: model_shaped_def flip: has_shape_tab)
qed

lemma unravel_append:
  "m1 < prod_list s1 \<Longrightarrow> m2 < prod_list s2 \<Longrightarrow>
     unravel (s1 @ s2) (m1 * prod_list s2 + m2) = unravel s1 m1 @ unravel s2 m2"
proof (induction s1 arbitrary: m1)
  case Nil
  then show ?case by simp
next
  case (Cons d ds)
  let ?P = "prod_list ds" and ?R = "prod_list s2"
  have pos: "0 < ?P" using Cons.prems by (cases "?P = 0") auto
  have d: "(m1 * ?R + m2) div (?P * ?R) = m1 div ?P"
    using Cons.prems by (simp add: mult.commute [of _ ?R] div_mult2_eq)
  have md: "(m1 * ?R + m2) mod (?P * ?R) = (m1 mod ?P) * ?R + m2"
    using Cons.prems by (simp add: mult.commute [of _ ?R] mod_mult2_eq)
  show ?case using Cons.IH [OF _ Cons.prems(2), of "m1 mod ?P"] pos by (simp add: d md)
qed

lemma sum_unravel2: "(\<Sum>m<a * b. F (unravel [a, b] m)) = (\<Sum>i<a. \<Sum>j<b. F [i, j])"
proof -
  have lt: "i * b + j < a * b" if "i < a" "j < b" for i j
  proof -
    have "i * b + j < Suc i * b" using that by simp
    also have "\<dots> \<le> a * b" using that by (intro mult_le_mono1) simp
    finally show ?thesis .
  qed
  have "(\<Sum>i<a. \<Sum>j<b. F [i, j]) = (\<Sum>p\<in>{..<a} \<times> {..<b}. F [fst p, snd p])"
    by (simp add: sum.cartesian_product case_prod_unfold)
  also have "\<dots> = (\<Sum>m<a * b. F (unravel [a, b] m))"
  proof (rule sum.reindex_bij_witness [where i = "\<lambda>m. (m div b, m mod b)" and j = "\<lambda>p. fst p * b + snd p"],
      goal_cases)
    case (1 p)
    then show ?case by auto
  next
    case (2 p)
    then show ?case by (auto simp: lt)
  next
    case (3 m)
    then show ?case by simp
  next
    case (4 m)
    then have m: "m < a * b" by simp
    then have "0 < b" by (cases "b = 0") auto
    then show ?case using m by (simp add: less_mult_imp_div_less)
  next
    case (5 p)
    then show ?case by auto
  qed
  finally show ?thesis by simp
qed


lemma broadcast_same: "broadcast_shapes s s = Inr s"
proof -
  have "map2 bdim s s = s" by (induction s) simp_all
  moreover have "list_all2 (\<lambda>d1 d2. d1 = d2 \<or> d1 = 1 \<or> d2 = 1) s s"
    by (simp add: list_all2_same)
  ultimately show ?thesis by (simp add: broadcast_shapes_def pad_def)
qed

lemma bop_same_tab: "bop f (tab s g) (tab s h) = Inr (tab s (\<lambda>idx. f (g idx) (h idx)))"
proof -
  have "tab s (\<lambda>idx. f (g (bc s idx)) (h (bc s idx))) = tab s (\<lambda>idx. f (g idx) (h idx))"
    by (rule tab_cong) (simp add: bc_id)
  then show ?thesis by (simp add: bop_tab broadcast_same)
qed

lemma bop_scalar_tab: "bop f (tab [] g) (tab s h) = Inr (tab s (\<lambda>idx. f (g []) (h idx)))"
proof -
  have "tab s (\<lambda>idx. f (g (bc [] idx)) (h (bc s idx))) = tab s (\<lambda>idx. f (g []) (h idx))"
    by (rule tab_cong) (simp add: bc_id bc_nil)
  then show ?thesis by (simp add: bop_tab broadcast_nil1)
qed

lemma matvec_tab:
  "matvec (tab [n, k] g) (tab [k] h) =
     Inr (tab [n] (\<lambda>idx. \<Sum>j<k. g [idx ! 0, j] * h [j]))"
proof -
  have "map (\<lambda>i. \<Sum>j<k. data (tab [n, k] g) ! (i * k + j) * data (tab [k] h) ! j) [0..<n]
      = map (\<lambda>i. \<Sum>j<k. g [i, j] * h [j]) [0..<n]"
    by (rule map_cong) (simp_all add: data_tab2 data_tab1)
  then show ?thesis
    by (simp add: matvec_def shape_tab sum_list_upt) (simp add: tab_def)
qed

lemma sum_indicator:
  fixes X :: "nat \<Rightarrow> real"
  assumes "0 \<le> s" "s < int n"
  shows "(\<Sum>ip<n. (if s = int ip then 1 else 0) * X ip) = X (nat s)"
proof -
  have "(\<Sum>ip<n. (if s = int ip then 1 else 0) * X ip) = (\<Sum>ip<n. if ip = nat s then X ip else 0)"
    using assms by (intro sum.cong) auto
  also have "\<dots> = X (nat s)"
  proof -
    have "nat s < n" using assms by linarith
    then show ?thesis by (simp add: sum.delta)
  qed
  finally show ?thesis .
qed

lemma T_sigma_matrix_version_tab:
  assumes "model_shaped (Ny, Nz) (y_grid, z_grid, Q)" and "has_shape v [Ny, Nz]"
    and "has_shape \<sigma> [Ny, Nz]" and "0 < Ny" and "policy_in_range \<sigma> Ny Nz"
  shows "T_sigma_matrix_version v \<sigma> (\<beta>, a_0, a_1, \<gamma>, c) (Ny, Nz) (y_grid, z_grid, Q) =
    Inr (tab [Ny, Nz] (\<lambda>idx.
       B_spec v (\<beta>, a_0, a_1, \<gamma>, c) (Ny, Nz) (y_grid, z_grid, Q) (idx ! 0) (idx ! 1)
         (nat (elem \<sigma> idx))))"
proof -
  let ?n = "Ny * Nz"
  let ?rg = "\<lambda>idx. rew a_0 a_1 \<gamma> c (elem y_grid [idx ! 0]) (elem z_grid [idx ! 1])
         (elem y_grid [norm_index Ny (elem \<sigma> idx)])"
  let ?Pg = "\<lambda>idx. P_spec \<sigma> Q (idx ! 0) (idx ! 1) (idx ! 2) (idx ! 3)"
  let ?P' = "\<lambda>idx. ?Pg (unravel [Ny, Nz, Ny, Nz] (ravel [?n, ?n] idx))"
  let ?r' = "\<lambda>idx. ?rg (unravel [Ny, Nz] (ravel [?n] idx))"
  let ?v' = "\<lambda>idx. elem v (unravel [Ny, Nz] (ravel [?n] idx))"
  let ?new = "\<lambda>idx. ?r' idx + (\<Sum>mp<?n. \<beta> * ?P' [idx ! 0, mp] * ?v' [mp])"
  have v: "v = tab [Ny, Nz] (elem v)" using assms(2) by (rule has_shape_tab)
  have p4: "prod_list [?n, ?n] = prod_list [Ny, Nz, Ny, Nz]" by simp
  have s1: "reshape (tab [Ny, Nz, Ny, Nz] ?Pg) [?n, ?n] = Inr (tab [?n, ?n] ?P')"
    unfolding reshape_tab using p4 by simp
  have s2: "reshape (tab [Ny, Nz] ?rg) [?n] = Inr (tab [?n] ?r')"
    unfolding reshape_tab by simp
  have s3: "reshape v [?n] = Inr (tab [?n] ?v')"
    by (subst v, unfold reshape_tab) simp
  have s4: "rmul (const \<beta>) (Inr (tab [?n, ?n] ?P')) = Inr (tab [?n, ?n] (\<lambda>idx. \<beta> * ?P' idx))"
    by (simp add: arith_defs bop_scalar_tab)
  have s5: "matvec (tab [?n, ?n] (\<lambda>idx. \<beta> * ?P' idx)) (tab [?n] ?v')
      = Inr (tab [?n] (\<lambda>idx. \<Sum>mp<?n. \<beta> * ?P' [idx ! 0, mp] * ?v' [mp]))"
    by (rule matvec_tab)
  have s6: "radd (Inr (tab [?n] ?r')) (Inr (tab [?n] (\<lambda>idx. \<Sum>mp<?n. \<beta> * ?P' [idx ! 0, mp] * ?v' [mp])))
      = Inr (tab [?n] ?new)"
    by (simp add: arith_defs bop_same_tab)
  have s7: "reshape (tab [?n] ?new) [Ny, Nz] = Inr (tab [Ny, Nz] (\<lambda>idx. ?new (unravel [?n] (ravel [Ny, Nz] idx))))"
    unfolding reshape_tab by simp
  have run: "T_sigma_matrix_version v \<sigma> (\<beta>, a_0, a_1, \<gamma>, c) (Ny, Nz) (y_grid, z_grid, Q)
      = Inr (tab [Ny, Nz] (\<lambda>idx. ?new (unravel [?n] (ravel [Ny, Nz] idx))))"
    unfolding T_sigma_matrix_version.simps compute_r_sigma_tab [OF assms(1,3,4)]
      compute_P_sigma_tab [OF assms(1,3)] and_then_simps Let_def s1 s2 s3 s4 lift2_Inr s5 s6 s7
    by (rule refl)
  have "tab [Ny, Nz] (\<lambda>idx. ?new (unravel [?n] (ravel [Ny, Nz] idx)))
      = tab [Ny, Nz] (\<lambda>idx.
       B_spec v (\<beta>, a_0, a_1, \<gamma>, c) (Ny, Nz) (y_grid, z_grid, Q) (idx ! 0) (idx ! 1)
         (nat (elem \<sigma> idx)))"
  proof (rule tab_cong)
    fix idx assume "list_all2 (<) idx [Ny, Nz]"
    then obtain i j where idx: "idx = [i, j]" and i: "i < Ny" and j: "j < Nz"
      by (auto simp: inb2)
    have m: "i * Nz + j < ?n" using ravel_less [of "[i, j]" "[Ny, Nz]"] i j by simp
    have \<sigma>: "0 \<le> elem \<sigma> [i, j]" "elem \<sigma> [i, j] < int Ny"
      using assms(5) i j by (simp_all add: policy_in_range_def)
    have u: "unravel [?n] (ravel [Ny, Nz] idx) = [i * Nz + j]" by (simp add: idx)
    have r: "?r' [i * Nz + j] = ?rg [i, j]" using i j by simp
    have U: "unravel [Ny, Nz, Ny, Nz] (ravel [?n, ?n] [i * Nz + j, mp]) = [i, j] @ unravel [Ny, Nz] mp"
      if "mp < ?n" for mp
    proof -
      have "unravel ([Ny, Nz] @ [Ny, Nz]) ((i * Nz + j) * prod_list [Ny, Nz] + mp)
          = unravel [Ny, Nz] (i * Nz + j) @ unravel [Ny, Nz] mp"
        by (rule unravel_append) (use m that in simp_all)
      moreover have "unravel [Ny, Nz] (i * Nz + j) = [i, j]" using i j by simp
      moreover have "ravel [?n, ?n] [i * Nz + j, mp] = (i * Nz + j) * prod_list [Ny, Nz] + mp"
        by simp
      ultimately show ?thesis by (simp del: unravel.simps ravel.simps)
    qed
    have R1: "ravel [?n] [mp] = mp" for mp by simp
    have "(\<Sum>mp<?n. \<beta> * ?P' [i * Nz + j, mp] * ?v' [mp])
        = (\<Sum>mp<?n. \<beta> * ?Pg ([i, j] @ unravel [Ny, Nz] mp) * elem v (unravel [Ny, Nz] mp))"
      by (rule sum.cong, rule refl) (simp only: lessThan_iff U R1 nth_Cons_0)
    also have "\<dots> = (\<Sum>ip<Ny. \<Sum>jp<Nz. \<beta> * ?Pg ([i, j] @ [ip, jp]) * elem v [ip, jp])"
      by (rule sum_unravel2 [where F = "\<lambda>q. \<beta> * ?Pg ([i, j] @ q) * elem v q"])
    also have "\<dots> = (\<Sum>ip<Ny. (if elem \<sigma> [i, j] = int ip then 1 else 0) *
          (\<Sum>jp<Nz. \<beta> * (elem Q [j, jp] * elem v [ip, jp])))"
      by (simp add: P_spec_def sum_distrib_left mult_ac)
    also have "\<dots> = (\<Sum>jp<Nz. \<beta> * (elem Q [j, jp] * elem v [nat (elem \<sigma> [i, j]), jp]))"
      by (rule sum_indicator [OF \<sigma>])
    also have "\<dots> = \<beta> * EVal v Q Nz j (nat (elem \<sigma> [i, j]))"
      by (simp add: EVal_def sum_distrib_left mult_ac)
    finally have s: "(\<Sum>mp<?n. \<beta> * ?P' [i * Nz + j, mp] * ?v' [mp])
        = \<beta> * EVal v Q Nz j (nat (elem \<sigma> [i, j]))" .
    show "?new (unravel [?n] (ravel [Ny, Nz] idx))
        = B_spec v (\<beta>, a_0, a_1, \<gamma>, c) (Ny, Nz) (y_grid, z_grid, Q) (idx ! 0) (idx ! 1)
            (nat (elem \<sigma> idx))"
      unfolding u using r s \<sigma> by (simp add: idx B_spec.simps norm_index_nat del: unravel.simps ravel.simps)
  qed
  with run show ?thesis by simp
qed

text \<open>A model with two output levels and two shock levels, for the examples.\<close>

lemma ex_model_shaped:
  "model_shaped (2, 2)
      (\<lparr>shape = [2], data = [0, 1]\<rparr>, \<lparr>shape = [2], data = [-1, 1]\<rparr>,
       \<lparr>shape = [2, 2], data = [1 / 2, 1 / 2, 1 / 4, 3 / 4 :: real]\<rparr>)"
  by (simp add: model_shaped_def has_shape_def)

lemma ex_v_shaped: "has_shape \<lparr>shape = [2, 2], data = [1, 2, 3, 4 :: real]\<rparr> [2, 2]"
  by (simp add: has_shape_def)

lemma ex_sigma_shaped: "has_shape \<lparr>shape = [2, 2], data = [1, 0, 0, 1 :: int]\<rparr> [2, 2]"
  by (simp add: has_shape_def)

lemma all_less_2: "(\<forall>i<2. P i) \<longleftrightarrow> P 0 \<and> P (Suc 0)"
  by (auto simp: less_2_cases_iff)

lemma ex_sigma_in_range: "policy_in_range \<lparr>shape = [2, 2], data = [1, 0, 0, 1]\<rparr> 2 2"
  by (simp add: policy_in_range_def elem_def all_less_2)

lemma ex_Q_stochastic:
  "row_stochastic \<lparr>shape = [2, 2], data = [1 / 2, 1 / 2, 1 / 4, 3 / 4]\<rparr> 2"
  by (simp add: row_stochastic_def elem_def all_less_2 lessThan_nat_numeral lessThan_Suc)

text \<open>
  C4. For a policy \<open>\<sigma>\<close> of shape \<open>(Ny, Nz)\<close> with entries in \<open>[0, Ny)\<close>, a value array \<open>v\<close>
  of shape \<open>(Ny, Nz)\<close> and indices \<open>i < Ny\<close>, \<open>j < Nz\<close>: \<open>T_sigma\<close> and
  \<open>T_sigma_matrix_version\<close> return the same array of shape \<open>(Ny, Nz)\<close>, and its entry
  \<open>(i, j)\<close> is the reward at \<open>(i, j, \<sigma>[i, j])\<close> plus \<open>\<beta>\<close> times the sum over \<open>jp\<close> of
  \<open>v[\<sigma>[i, j], jp] Q[j, jp]\<close>.
\<close>

theorem T_sigma_matrix_version_agrees:
  assumes "model_shaped (Ny, Nz) (y_grid, z_grid, Q)" and "has_shape v [Ny, Nz]"
    and "has_shape \<sigma> [Ny, Nz]" and "policy_in_range \<sigma> Ny Nz" and "i < Ny" and "j < Nz"
  shows "\<exists>t. T_sigma v \<sigma> (\<beta>, a_0, a_1, \<gamma>, c) (Ny, Nz) (y_grid, z_grid, Q) = Inr t \<and>
      T_sigma_matrix_version v \<sigma> (\<beta>, a_0, a_1, \<gamma>, c) (Ny, Nz) (y_grid, z_grid, Q) = Inr t \<and>
      has_shape t [Ny, Nz] \<and>
      elem t [i, j] =
        (a_0 - a_1 * elem y_grid [i] + elem z_grid [j] - c) * elem y_grid [i]
          - \<gamma> * (elem y_grid [nat (elem \<sigma> [i, j])] - elem y_grid [i])\<^sup>2
        + \<beta> * (\<Sum>jp<Nz. elem v [nat (elem \<sigma> [i, j]), jp] * elem Q [j, jp])"
proof -
  have Ny: "0 < Ny" and Nz: "0 < Nz" using assms(5,6) by simp_all
  have "tab [Ny, Nz] (\<lambda>idx.
       B_spec v (\<beta>, a_0, a_1, \<gamma>, c) (Ny, Nz) (y_grid, z_grid, Q) (idx ! 0) (idx ! 1)
         (norm_index Ny (elem \<sigma> idx)))
     = tab [Ny, Nz] (\<lambda>idx.
       B_spec v (\<beta>, a_0, a_1, \<gamma>, c) (Ny, Nz) (y_grid, z_grid, Q) (idx ! 0) (idx ! 1)
         (nat (elem \<sigma> idx)))"
    using assms(4) by (intro tab_cong) (auto simp: inb2 policy_in_range_def norm_index_nat)
  then have "T_sigma v \<sigma> (\<beta>, a_0, a_1, \<gamma>, c) (Ny, Nz) (y_grid, z_grid, Q) =
      T_sigma_matrix_version v \<sigma> (\<beta>, a_0, a_1, \<gamma>, c) (Ny, Nz) (y_grid, z_grid, Q)"
    unfolding T_sigma_tab [OF assms(1,2,3) Ny Nz] T_sigma_matrix_version_tab [OF assms(1,2,3) Ny assms(4)]
    by simp
  then show ?thesis
    unfolding T_sigma_matrix_version_tab [OF assms(1,2,3) Ny assms(4)]
    using assms(5,6) by (simp add: elem_tab B_spec.simps rew_def EVal_def)
qed

theorem T_sigma_matrix_version_agrees_witness:
  "\<exists>t. T_sigma \<lparr>shape = [2, 2], data = [1, 2, 3, 4]\<rparr> \<lparr>shape = [2, 2], data = [1, 0, 0, 1]\<rparr>
          (1 / 2, 10, 1, 25, 1) (2, 2)
          (\<lparr>shape = [2], data = [0, 1]\<rparr>, \<lparr>shape = [2], data = [-1, 1]\<rparr>,
           \<lparr>shape = [2, 2], data = [1 / 2, 1 / 2, 1 / 4, 3 / 4]\<rparr>) = Inr t \<and>
       T_sigma_matrix_version \<lparr>shape = [2, 2], data = [1, 2, 3, 4]\<rparr>
          \<lparr>shape = [2, 2], data = [1, 0, 0, 1]\<rparr> (1 / 2, 10, 1, 25, 1) (2, 2)
          (\<lparr>shape = [2], data = [0, 1]\<rparr>, \<lparr>shape = [2], data = [-1, 1]\<rparr>,
           \<lparr>shape = [2, 2], data = [1 / 2, 1 / 2, 1 / 4, 3 / 4]\<rparr>) = Inr t \<and>
       has_shape t [2, 2] \<and> elem t [1, 0] = -18 + 1 / 2 * (3 / 2)"
proof -
  have i: "(1::nat) < 2" and j: "(0::nat) < 2" by simp_all
  from T_sigma_matrix_version_agrees [OF ex_model_shaped ex_v_shaped ex_sigma_shaped ex_sigma_in_range i j,
      of "1 / 2" 10 1 25 1]
  show ?thesis
    by (simp add: elem_def lessThan_nat_numeral lessThan_Suc)
qed

text \<open>
  C9. For a value array \<open>v\<close> of shape \<open>(Ny, Nz)\<close> on non-empty grids: for every policy \<open>\<sigma>\<close>
  with entries in \<open>[0, Ny)\<close> the entry \<open>(i, j)\<close> of \<open>T_sigma(v, \<sigma>)\<close> is \<open>B(v)[i, j, \<sigma>[i, j]]\<close>, and
  with the greedy policy the policy operator gives the Bellman operator:
  \<open>T_sigma(v, get_greedy(v)) = T(v)\<close>.
\<close>

theorem T_sigma_greedy_is_T:
  assumes "model_shaped (Ny, Nz) (y_grid, z_grid, Q)" and "has_shape v [Ny, Nz]"
    and "0 < Ny" and "0 < Nz"
  shows "(\<forall>\<sigma>. has_shape \<sigma> [Ny, Nz] \<and> policy_in_range \<sigma> Ny Nz \<longrightarrow>
        (\<exists>t b. T_sigma v \<sigma> (\<beta>, a_0, a_1, \<gamma>, c) (Ny, Nz) (y_grid, z_grid, Q) = Inr t \<and>
           B v (\<beta>, a_0, a_1, \<gamma>, c) (Ny, Nz) (y_grid, z_grid, Q) = Inr b \<and>
           (\<forall>i<Ny. \<forall>j<Nz. elem t [i, j] = elem b [i, j, nat (elem \<sigma> [i, j])]))) \<and>
     (\<exists>g t. get_greedy v (\<beta>, a_0, a_1, \<gamma>, c) (Ny, Nz) (y_grid, z_grid, Q) = Inr g \<and>
        T_sigma v g (\<beta>, a_0, a_1, \<gamma>, c) (Ny, Nz) (y_grid, z_grid, Q) = Inr t \<and>
        T v (\<beta>, a_0, a_1, \<gamma>, c) (Ny, Nz) (y_grid, z_grid, Q) = Inr t)"
proof (intro conjI allI impI)
  let ?c = "(\<beta>, a_0, a_1, \<gamma>, c)" and ?a = "(y_grid, z_grid, Q)"
  fix \<sigma> :: "int ndarray"
  assume s: "has_shape \<sigma> [Ny, Nz] \<and> policy_in_range \<sigma> Ny Nz"
  then have r: "\<And>i j. i < Ny \<Longrightarrow> j < Nz \<Longrightarrow> norm_index Ny (elem \<sigma> [i, j]) = nat (elem \<sigma> [i, j])"
      and l: "\<And>i j. i < Ny \<Longrightarrow> j < Nz \<Longrightarrow> nat (elem \<sigma> [i, j]) < Ny"
    by (auto simp: policy_in_range_def norm_index_nat nat_less_iff)
  show "\<exists>t b. T_sigma v \<sigma> ?c (Ny, Nz) ?a = Inr t \<and> B v ?c (Ny, Nz) ?a = Inr b \<and>
           (\<forall>i<Ny. \<forall>j<Nz. elem t [i, j] = elem b [i, j, nat (elem \<sigma> [i, j])])"
    unfolding T_sigma_tab [OF assms(1,2) conjunct1 [OF s] assms(3,4)] B_table [OF assms(1,2)]
    by (simp add: elem_tab r l)
next
  let ?c = "(\<beta>, a_0, a_1, \<gamma>, c)" and ?a = "(y_grid, z_grid, Q)"
  let ?g = "\<lambda>idx. int (argmax_list (map (B_spec v ?c (Ny, Nz) ?a (idx ! 0) (idx ! 1)) [0..<Ny]))"
  have "tab [Ny, Nz] (\<lambda>idx. B_spec v ?c (Ny, Nz) ?a (idx ! 0) (idx ! 1)
            (norm_index Ny (elem (tab [Ny, Nz] ?g) idx)))
      = tab [Ny, Nz] (\<lambda>idx. max_list (map (B_spec v ?c (Ny, Nz) ?a (idx ! 0) (idx ! 1)) [0..<Ny]))"
  proof (rule tab_cong)
    fix idx assume b: "list_all2 (<) idx [Ny, Nz]"
    let ?xs = "map (B_spec v ?c (Ny, Nz) ?a (idx ! 0) (idx ! 1)) [0..<Ny]"
    have ne: "?xs \<noteq> []" using assms(3) by simp
    have k: "argmax_list ?xs < Ny" using argmax_list_less [OF ne] by simp
    have "?xs ! argmax_list ?xs = max_list ?xs" by (rule argmax_list_max [OF ne])
    then have "B_spec v ?c (Ny, Nz) ?a (idx ! 0) (idx ! 1) (argmax_list ?xs) = max_list ?xs"
      using k by simp
    then show "B_spec v ?c (Ny, Nz) ?a (idx ! 0) (idx ! 1)
            (norm_index Ny (elem (tab [Ny, Nz] ?g) idx)) = max_list ?xs"
      using k b by (simp add: elem_tab)
  qed
  then show "\<exists>g t. get_greedy v ?c (Ny, Nz) ?a = Inr g \<and> T_sigma v g ?c (Ny, Nz) ?a = Inr t \<and>
        T v ?c (Ny, Nz) ?a = Inr t"
    unfolding get_greedy_tab [OF assms(1,2,3)] T_tab [OF assms(1,2,3)]
    by (simp add: T_sigma_tab [OF assms(1,2) has_shape_tab2 assms(3,4)])
qed

theorem T_sigma_greedy_is_T_witness:
  "\<exists>g t. get_greedy \<lparr>shape = [2, 2], data = [1, 2, 3, 4]\<rparr> (1 / 2, 10, 1, 25, 1) (2, 2)
          (\<lparr>shape = [2], data = [0, 1]\<rparr>, \<lparr>shape = [2], data = [-1, 1]\<rparr>,
           \<lparr>shape = [2, 2], data = [1 / 2, 1 / 2, 1 / 4, 3 / 4]\<rparr>) = Inr g \<and>
       T_sigma \<lparr>shape = [2, 2], data = [1, 2, 3, 4]\<rparr> g (1 / 2, 10, 1, 25, 1) (2, 2)
          (\<lparr>shape = [2], data = [0, 1]\<rparr>, \<lparr>shape = [2], data = [-1, 1]\<rparr>,
           \<lparr>shape = [2, 2], data = [1 / 2, 1 / 2, 1 / 4, 3 / 4]\<rparr>) = Inr t \<and>
       T \<lparr>shape = [2, 2], data = [1, 2, 3, 4]\<rparr> (1 / 2, 10, 1, 25, 1) (2, 2)
          (\<lparr>shape = [2], data = [0, 1]\<rparr>, \<lparr>shape = [2], data = [-1, 1]\<rparr>,
           \<lparr>shape = [2, 2], data = [1 / 2, 1 / 2, 1 / 4, 3 / 4]\<rparr>) = Inr t"
proof -
  have p: "(0::nat) < 2" by simp
  from T_sigma_greedy_is_T [OF ex_model_shaped ex_v_shaped p p, of "1 / 2" 10 1 25 1]
  show ?thesis by blast
qed

text \<open>
  C10. For a policy \<open>\<sigma>\<close> of shape \<open>(Ny, Nz)\<close> with entries in \<open>[0, Ny)\<close> and a row-stochastic
  \<open>Q\<close>, the array \<open>compute_P_sigma(\<sigma>)\<close> has shape \<open>(Ny, Nz, Ny, Nz)\<close>, and reshaped to the
  square matrix of side \<open>Ny Nz\<close> it is row-stochastic: no entry is negative and every row
  sums to one.
\<close>

theorem P_sigma_row_stochastic:
  assumes "model_shaped (Ny, Nz) (y_grid, z_grid, Q)" and "has_shape \<sigma> [Ny, Nz]"
    and "policy_in_range \<sigma> Ny Nz" and "row_stochastic Q Nz"
  shows "\<exists>P P'. compute_P_sigma \<sigma> (\<beta>, a_0, a_1, \<gamma>, c) (Ny, Nz) (y_grid, z_grid, Q) = Inr P \<and>
      has_shape P [Ny, Nz, Ny, Nz] \<and> reshape P [Ny * Nz, Ny * Nz] = Inr P' \<and>
      has_shape P' [Ny * Nz, Ny * Nz] \<and> row_stochastic P' (Ny * Nz)"
proof -
  let ?n = "Ny * Nz"
  let ?Pg = "\<lambda>idx. P_spec \<sigma> Q (idx ! 0) (idx ! 1) (idx ! 2) (idx ! 3)"
  let ?P' = "\<lambda>idx. ?Pg (unravel [Ny, Nz, Ny, Nz] (ravel [?n, ?n] idx))"
  have p4: "prod_list [?n, ?n] = prod_list [Ny, Nz, Ny, Nz]" by simp
  have s1: "reshape (tab [Ny, Nz, Ny, Nz] ?Pg) [?n, ?n] = Inr (tab [?n, ?n] ?P')"
    unfolding reshape_tab using p4 by simp
  have U: "unravel [Ny, Nz, Ny, Nz] (ravel [?n, ?n] [m, mp]) = unravel [Ny, Nz] m @ unravel [Ny, Nz] mp"
    if "m < ?n" "mp < ?n" for m mp
  proof -
    have "unravel ([Ny, Nz] @ [Ny, Nz]) (m * prod_list [Ny, Nz] + mp)
        = unravel [Ny, Nz] m @ unravel [Ny, Nz] mp"
      by (rule unravel_append) (use that in simp_all)
    moreover have "ravel [?n, ?n] [m, mp] = m * prod_list [Ny, Nz] + mp" by simp
    ultimately show ?thesis by (simp del: unravel.simps ravel.simps)
  qed
  have e: "elem (tab [?n, ?n] ?P') [m, mp] = ?Pg (unravel [Ny, Nz] m @ unravel [Ny, Nz] mp)"
    if "m < ?n" "mp < ?n" for m mp
    using that by (simp add: elem_tab U del: unravel.simps ravel.simps)
  have ij: "m div Nz < Ny \<and> m mod Nz < Nz" if "m < ?n" for m
  proof -
    have "0 < Nz" using that by (cases "Nz = 0") auto
    then show ?thesis using that by (simp add: less_mult_imp_div_less)
  qed
  have Q0: "0 \<le> elem Q [j, jp]" if "j < Nz" "jp < Nz" for j jp
    using assms(4) that by (simp add: row_stochastic_def)
  have Q1: "(\<Sum>jp<Nz. elem Q [j, jp]) = 1" if "j < Nz" for j
    using assms(4) that by (simp add: row_stochastic_def)
  have nonneg: "0 \<le> elem (tab [?n, ?n] ?P') [m, mp]" if "m < ?n" "mp < ?n" for m mp
    unfolding e [OF that] using ij [OF that(1)] ij [OF that(2)] by (simp add: P_spec_def Q0)
  have rows: "(\<Sum>mp<?n. elem (tab [?n, ?n] ?P') [m, mp]) = 1" if "m < ?n" for m
  proof -
    let ?i = "m div Nz" and ?j = "m mod Nz"
    have \<sigma>: "0 \<le> elem \<sigma> [?i, ?j]" "elem \<sigma> [?i, ?j] < int Ny"
      using assms(3) ij [OF that] by (simp_all add: policy_in_range_def)
    have um: "unravel [Ny, Nz] m = [?i, ?j]" by simp
    have "(\<Sum>mp<?n. elem (tab [?n, ?n] ?P') [m, mp])
        = (\<Sum>mp<?n. ?Pg ([?i, ?j] @ unravel [Ny, Nz] mp))"
      by (rule sum.cong, rule refl) (simp only: lessThan_iff e [OF that] um)
    also have "\<dots> = (\<Sum>ip<Ny. \<Sum>jp<Nz. ?Pg ([?i, ?j] @ [ip, jp]))"
      by (rule sum_unravel2 [where F = "\<lambda>q. ?Pg ([?i, ?j] @ q)"])
    also have "\<dots> = (\<Sum>ip<Ny. (if elem \<sigma> [?i, ?j] = int ip then 1 else 0) * (\<Sum>jp<Nz. elem Q [?j, jp]))"
      by (simp add: P_spec_def sum_distrib_left)
    also have "\<dots> = (\<Sum>jp<Nz. elem Q [?j, jp])"
      by (rule sum_indicator [OF \<sigma>])
    also have "\<dots> = 1" using ij [OF that] by (simp add: Q1)
    finally show ?thesis .
  qed
  show ?thesis
    unfolding compute_P_sigma_tab [OF assms(1,2)]
    using s1 nonneg rows by (simp add: row_stochastic_def)
qed

theorem P_sigma_row_stochastic_witness:
  "\<exists>P P'. compute_P_sigma \<lparr>shape = [2, 2], data = [1, 0, 0, 1]\<rparr> (1 / 2, 10, 1, 25, 1) (2, 2)
          (\<lparr>shape = [2], data = [0, 1]\<rparr>, \<lparr>shape = [2], data = [-1, 1]\<rparr>,
           \<lparr>shape = [2, 2], data = [1 / 2, 1 / 2, 1 / 4, 3 / 4]\<rparr>) = Inr P \<and>
      has_shape P [2, 2, 2, 2] \<and> reshape P [4, 4] = Inr P' \<and>
      has_shape P' [4, 4] \<and> row_stochastic P' 4"
proof -
  from P_sigma_row_stochastic [OF ex_model_shaped ex_sigma_shaped ex_sigma_in_range ex_Q_stochastic,
      of "1 / 2" 10 1 25 1]
  show ?thesis by simp
qed

subsection \<open>The Bellman operator is a contraction\<close>

lemma max_list_ge: "x \<in> set xs \<Longrightarrow> x \<le> max_list xs"
  by (induction xs rule: max_list.induct) (auto simp: max_def)

lemma max_list_in: "xs \<noteq> [] \<Longrightarrow> max_list xs \<in> set xs"
  by (induction xs rule: max_list.induct) (auto simp: max_def)

lemma max_list_le: "xs \<noteq> [] \<Longrightarrow> (\<And>x. x \<in> set xs \<Longrightarrow> x \<le> c) \<Longrightarrow> max_list xs \<le> c"
  using max_list_in by blast

lemma max_list_close:
  fixes f g :: "nat \<Rightarrow> real"
  assumes "0 < n" and "\<And>k. k < n \<Longrightarrow> \<bar>f k - g k\<bar> \<le> c"
  shows "\<bar>max_list (map f [0..<n]) - max_list (map g [0..<n])\<bar> \<le> c"
proof -
  have nef: "map f [0..<n] \<noteq> []" and neg: "map g [0..<n] \<noteq> []" using assms(1) by simp_all
  have "max_list (map f [0..<n]) \<le> max_list (map g [0..<n]) + c"
  proof (rule max_list_le [OF nef])
    fix x assume "x \<in> set (map f [0..<n])"
    then obtain k where k: "k < n" "x = f k" by auto
    have "f k \<le> g k + c" using assms(2) [OF k(1)] by linarith
    moreover have "g k \<le> max_list (map g [0..<n])" using k(1) by (intro max_list_ge) simp
    ultimately show "x \<le> max_list (map g [0..<n]) + c" using k(2) by linarith
  qed
  moreover have "max_list (map g [0..<n]) \<le> max_list (map f [0..<n]) + c"
  proof (rule max_list_le [OF neg])
    fix x assume "x \<in> set (map g [0..<n])"
    then obtain k where k: "k < n" "x = g k" by auto
    have "g k \<le> f k + c" using assms(2) [OF k(1)] by linarith
    moreover have "f k \<le> max_list (map f [0..<n])" using k(1) by (intro max_list_ge) simp
    ultimately show "x \<le> max_list (map f [0..<n]) + c" using k(2) by linarith
  qed
  ultimately show ?thesis by linarith
qed

lemma max_abs_diff_tab:
  fixes g h :: "nat list \<Rightarrow> 'a::linordered_idom"
  assumes "prod_list s \<noteq> 0"
  shows "max_abs_diff (tab s g) (tab s h) =
     Inr (max_list (map (\<lambda>m. \<bar>g (unravel s m) - h (unravel s m)\<bar>) [0..<prod_list s]))"
  using assms by (simp add: max_abs_diff_def bop_same_tab amap_tab max_all_def) (simp add: tab_def)

lemma EVal_close:
  assumes "row_stochastic Q Nz" and "j < Nz"
    and "\<And>jp. jp < Nz \<Longrightarrow> \<bar>elem v1 [k, jp] - elem v2 [k, jp]\<bar> \<le> e"
  shows "\<bar>EVal v1 Q Nz j k - EVal v2 Q Nz j k\<bar> \<le> e"
proof -
  have Q0: "0 \<le> elem Q [j, jp]" if "jp < Nz" for jp
    using assms(1,2) that by (simp add: row_stochastic_def)
  have Q1: "(\<Sum>jp<Nz. elem Q [j, jp]) = 1"
    using assms(1,2) by (simp add: row_stochastic_def)
  have "EVal v1 Q Nz j k - EVal v2 Q Nz j k
      = (\<Sum>jp<Nz. (elem v1 [k, jp] - elem v2 [k, jp]) * elem Q [j, jp])"
    by (simp add: EVal_def sum_subtractf left_diff_distrib)
  also have "\<bar>\<dots>\<bar> \<le> (\<Sum>jp<Nz. \<bar>(elem v1 [k, jp] - elem v2 [k, jp]) * elem Q [j, jp]\<bar>)"
    by (rule sum_abs)
  also have "\<dots> \<le> (\<Sum>jp<Nz. e * elem Q [j, jp])"
  proof (rule sum_mono)
    fix jp assume "jp \<in> {..<Nz}"
    then have jp: "jp < Nz" by simp
    show "\<bar>(elem v1 [k, jp] - elem v2 [k, jp]) * elem Q [j, jp]\<bar> \<le> e * elem Q [j, jp]"
      using assms(3) [OF jp] Q0 [OF jp] by (simp add: abs_mult mult_right_mono)
  qed
  also have "\<dots> = e" by (simp add: Q1 flip: sum_distrib_left)
  finally show ?thesis .
qed

text \<open>
  C3. For a discount factor \<open>\<beta>\<close> in \<open>(0, 1)\<close>, a row-stochastic \<open>Q\<close> and two value arrays
  \<open>v1\<close>, \<open>v2\<close> of shape \<open>(Ny, Nz)\<close> on non-empty grids, the largest absolute entry of
  \<open>T(v1) - T(v2)\<close> is at most \<open>\<beta>\<close> times the largest absolute entry of \<open>v1 - v2\<close>.
\<close>

theorem T_contraction:
  assumes "model_shaped (Ny, Nz) (y_grid, z_grid, Q)"
    and "has_shape v1 [Ny, Nz]" and "has_shape v2 [Ny, Nz]"
    and "0 < \<beta>" and "\<beta> < 1" and "row_stochastic Q Nz" and "0 < Ny" and "0 < Nz"
  shows "\<exists>t1 t2 d e. T v1 (\<beta>, a_0, a_1, \<gamma>, c) (Ny, Nz) (y_grid, z_grid, Q) = Inr t1 \<and>
      T v2 (\<beta>, a_0, a_1, \<gamma>, c) (Ny, Nz) (y_grid, z_grid, Q) = Inr t2 \<and>
      max_abs_diff t1 t2 = Inr d \<and> max_abs_diff v1 v2 = Inr e \<and> d \<le> \<beta> * e"
proof -
  let ?c = "(\<beta>, a_0, a_1, \<gamma>, c)" and ?a = "(y_grid, z_grid, Q)"
  let ?G = "\<lambda>v idx. max_list (map (B_spec v ?c (Ny, Nz) ?a (idx ! 0) (idx ! 1)) [0..<Ny])"
  let ?es = "map (\<lambda>m. \<bar>elem v1 (unravel [Ny, Nz] m) - elem v2 (unravel [Ny, Nz] m)\<bar>) [0..<prod_list [Ny, Nz]]"
  let ?ds = "map (\<lambda>m. \<bar>?G v1 (unravel [Ny, Nz] m) - ?G v2 (unravel [Ny, Nz] m)\<bar>) [0..<prod_list [Ny, Nz]]"
  have n: "prod_list [Ny, Nz] \<noteq> 0" using assms(7,8) by simp
  have v1: "v1 = tab [Ny, Nz] (elem v1)" using assms(2) by (rule has_shape_tab)
  have v2: "v2 = tab [Ny, Nz] (elem v2)" using assms(3) by (rule has_shape_tab)
  have e: "max_abs_diff v1 v2 = Inr (max_list ?es)"
    by (subst v1, subst v2) (rule max_abs_diff_tab [OF n])
  have d: "max_abs_diff (tab [Ny, Nz] (?G v1)) (tab [Ny, Nz] (?G v2)) = Inr (max_list ?ds)"
    by (rule max_abs_diff_tab [OF n])
  have ve: "\<bar>elem v1 [k, jp] - elem v2 [k, jp]\<bar> \<le> max_list ?es" if "k < Ny" "jp < Nz" for k jp
  proof (rule max_list_ge)
    have "ravel [Ny, Nz] [k, jp] < prod_list [Ny, Nz]" by (rule ravel_less) (simp add: that)
    moreover have "unravel [Ny, Nz] (ravel [Ny, Nz] [k, jp]) = [k, jp]"
      by (rule unravel_ravel) (simp add: that)
    ultimately show "\<bar>elem v1 [k, jp] - elem v2 [k, jp]\<bar> \<in> set ?es"
      unfolding set_map by (intro image_eqI [where x = "ravel [Ny, Nz] [k, jp]"]) simp_all
  qed
  have "max_list ?ds \<le> \<beta> * max_list ?es"
  proof (rule max_list_le)
    show "?ds \<noteq> []" using n by simp
    fix x assume "x \<in> set ?ds"
    then obtain m where m: "m < prod_list [Ny, Nz]"
      and x: "x = \<bar>?G v1 (unravel [Ny, Nz] m) - ?G v2 (unravel [Ny, Nz] m)\<bar>" by auto
    from unravel_inb [OF m] obtain i j where u: "unravel [Ny, Nz] m = [i, j]" and i: "i < Ny" and j: "j < Nz"
      by (auto simp: inb2)
    have "\<bar>B_spec v1 ?c (Ny, Nz) ?a i j k - B_spec v2 ?c (Ny, Nz) ?a i j k\<bar> \<le> \<beta> * max_list ?es"
      if "k < Ny" for k
    proof -
      have "\<bar>EVal v1 Q Nz j k - EVal v2 Q Nz j k\<bar> \<le> max_list ?es"
        by (rule EVal_close [OF assms(6) j]) (rule ve [OF that])
      then have "\<beta> * \<bar>EVal v1 Q Nz j k - EVal v2 Q Nz j k\<bar> \<le> \<beta> * max_list ?es"
        using assms(4) by (simp add: mult_left_mono)
      moreover have "B_spec v1 ?c (Ny, Nz) ?a i j k - B_spec v2 ?c (Ny, Nz) ?a i j k
          = \<beta> * (EVal v1 Q Nz j k - EVal v2 Q Nz j k)"
        by (simp add: B_spec.simps right_diff_distrib)
      ultimately show ?thesis using assms(4) by (simp add: abs_mult)
    qed
    then have "\<bar>?G v1 [i, j] - ?G v2 [i, j]\<bar> \<le> \<beta> * max_list ?es"
      using max_list_close [OF assms(7), of "B_spec v1 ?c (Ny, Nz) ?a i j" "B_spec v2 ?c (Ny, Nz) ?a i j"]
      by simp
    then show "x \<le> \<beta> * max_list ?es" unfolding x u .
  qed
  then show ?thesis
    unfolding T_tab [OF assms(1,2,7)] T_tab [OF assms(1,3,7)]
    using e d by blast
qed

theorem T_contraction_witness:
  "\<exists>t1 t2 d e.
      T \<lparr>shape = [2, 2], data = [1, 2, 3, 4]\<rparr> (1 / 2, 10, 1, 25, 1) (2, 2)
        (\<lparr>shape = [2], data = [0, 1]\<rparr>, \<lparr>shape = [2], data = [-1, 1]\<rparr>,
         \<lparr>shape = [2, 2], data = [1 / 2, 1 / 2, 1 / 4, 3 / 4]\<rparr>) = Inr t1 \<and>
      T \<lparr>shape = [2, 2], data = [0, 5, -2, 1]\<rparr> (1 / 2, 10, 1, 25, 1) (2, 2)
        (\<lparr>shape = [2], data = [0, 1]\<rparr>, \<lparr>shape = [2], data = [-1, 1]\<rparr>,
         \<lparr>shape = [2, 2], data = [1 / 2, 1 / 2, 1 / 4, 3 / 4]\<rparr>) = Inr t2 \<and>
      max_abs_diff t1 t2 = Inr d \<and>
      max_abs_diff \<lparr>shape = [2, 2], data = [1, 2, 3, 4]\<rparr>
        \<lparr>shape = [2, 2], data = [0, 5, -2, 1]\<rparr> = Inr e \<and>
      d \<le> 1 / 2 * e"
proof -
  have v2: "has_shape \<lparr>shape = [2, 2], data = [0, 5, -2, 1 :: real]\<rparr> [2, 2]"
    by (simp add: has_shape_def)
  have b: "(0::real) < 1 / 2" "(1 / 2 :: real) < 1" and p: "(0::nat) < 2" by simp_all
  show ?thesis
    by (rule T_contraction [OF ex_model_shaped ex_v_shaped v2 b ex_Q_stochastic p p])
qed

subsection \<open>Value iteration\<close>

lemma T_shaped:
  assumes "model_shaped (Ny, Nz) arrays" and "has_shape v [Ny, Nz]" and "0 < Ny"
  shows "\<exists>t. T v constants (Ny, Nz) arrays = Inr t \<and> has_shape t [Ny, Nz]"
proof -
  obtain \<beta> a_0 a_1 \<gamma> c where c: "constants = (\<beta>, a_0, a_1, \<gamma>, c)" by (cases constants)
  obtain y_grid z_grid Q where a: "arrays = (y_grid, z_grid, Q)" by (cases arrays)
  show ?thesis
    using assms unfolding c a by (simp add: T_tab)
qed

lemma get_greedy_shaped:
  assumes "model_shaped (Ny, Nz) arrays" and "has_shape v [Ny, Nz]" and "0 < Ny"
  shows "\<exists>g. get_greedy v constants (Ny, Nz) arrays = Inr g \<and> has_shape g [Ny, Nz]"
proof -
  obtain \<beta> a_0 a_1 \<gamma> c where c: "constants = (\<beta>, a_0, a_1, \<gamma>, c)" by (cases constants)
  obtain y_grid z_grid Q where a: "arrays = (y_grid, z_grid, Q)" by (cases arrays)
  show ?thesis
    using assms unfolding c a by (simp add: get_greedy_tab)
qed

lemma has_shape_zeros [simp]: "has_shape (zeros s) s"
  by (simp add: has_shape_def zeros_def)

lemma iterate_T_shaped:
  assumes "model_shaped (Ny, Nz) arrays" and "0 < Ny"
  shows "\<exists>x. iterate_T constants (Ny, Nz) arrays n = Inr x \<and> has_shape x [Ny, Nz]"
proof (induction n)
  case 0
  show ?case by simp
next
  case (Suc n)
  then obtain x where x: "iterate_T constants (Ny, Nz) arrays n = Inr x" "has_shape x [Ny, Nz]"
    by blast
  from T_shaped [OF assms(1) x(2) assms(2)] show ?case by (simp add: x(1))
qed

lemma max_abs_diff_shaped:
  fixes a b :: "'a::linordered_idom ndarray"
  assumes "has_shape a s" and "has_shape b s" and "prod_list s \<noteq> 0"
  shows "\<exists>e. max_abs_diff a b = Inr e"
proof -
  have a: "a = tab s (elem a)" and b: "b = tab s (elem b)"
    using assms(1,2) by (simp_all add: has_shape_tab)
  show ?thesis by (subst a, subst b) (simp add: max_abs_diff_tab [OF assms(3)])
qed

lemma sa_loop_run:
  fixes X :: "nat \<Rightarrow> real ndarray" and E :: "nat \<Rightarrow> real"
  assumes step: "\<And>n. T' (X n) = Inr (X (Suc n))"
    and chg: "\<And>n. max_abs_diff (X (Suc n)) (X n) = Inr (E (Suc n))"
  shows "\<exists>N. k \<le> N \<and>
      sa_loop T' tol max_iter ps False (X k, err, Suc k, out)
        = Inr (X N, (if N = k then err else E N), Suc N, out) \<and>
      (\<forall>n. k < n \<and> n < N \<longrightarrow> tol < E n) \<and>
      (N \<noteq> k \<longrightarrow> tol < err \<and> N \<le> max_iter) \<and>
      ((if N = k then err else E N) \<le> tol \<or> max_iter \<le> N)"
proof (induction "max_iter - k" arbitrary: k err)
  case 0
  then have "\<not> Suc k \<le> max_iter" by simp
  then have "sa_loop T' tol max_iter ps False (X k, err, Suc k, out) = Inr (X k, err, Suc k, out)"
    by (subst sa_loop.simps) simp
  then show ?case using 0 by (intro exI [of _ k]) simp
next
  case (Suc d)
  show ?case
  proof (cases "tol < err")
    case False
    then have "sa_loop T' tol max_iter ps False (X k, err, Suc k, out) = Inr (X k, err, Suc k, out)"
      by (subst sa_loop.simps) simp
    then show ?thesis using False by (intro exI [of _ k]) simp
  next
    case True
    have k: "Suc k \<le> max_iter" using Suc.hyps(2) by simp
    have d: "d = max_iter - Suc k" using Suc.hyps(2) by simp
    from Suc.hyps(1) [OF d, of "E (Suc k)"] obtain N where N: "Suc k \<le> N"
      and run: "sa_loop T' tol max_iter ps False (X (Suc k), E (Suc k), Suc (Suc k), out)
        = Inr (X N, (if N = Suc k then E (Suc k) else E N), Suc N, out)"
      and above: "\<forall>n. Suc k < n \<and> n < N \<longrightarrow> tol < E n"
      and ran: "N \<noteq> Suc k \<longrightarrow> tol < E (Suc k) \<and> N \<le> max_iter"
      and stop: "(if N = Suc k then E (Suc k) else E N) \<le> tol \<or> max_iter \<le> N"
      by blast
    have e: "(if N = Suc k then E (Suc k) else E N) = E N" by simp
    have "sa_loop T' tol max_iter ps False (X k, err, Suc k, out)
        = sa_loop T' tol max_iter ps False (X (Suc k), E (Suc k), Suc (Suc k), out)"
      using True k by (subst sa_loop.simps) (simp add: step chg)
    then have "sa_loop T' tol max_iter ps False (X k, err, Suc k, out) = Inr (X N, E N, Suc N, out)"
      using run e by simp
    moreover have "\<forall>n. k < n \<and> n < N \<longrightarrow> tol < E n"
    proof (intro allI impI)
      fix n assume n: "k < n \<and> n < N"
      show "tol < E n"
      proof (cases "n = Suc k")
        case True
        then show ?thesis using n ran by auto
      next
        case False
        then show ?thesis using n above by auto
      qed
    qed
    moreover have "N \<le> max_iter" using ran k by (cases "N = Suc k") auto
    ultimately show ?thesis
      using N True stop e by (intro exI [of _ N]) auto
  qed
qed


text \<open>
  C6, as the code has it. On a model with well-shaped arrays and non-empty grids,
  \<open>value_iteration\<close> starts from the all-zero array and applies \<open>T\<close> repeatedly; it stops
  after the first step \<open>N\<close> whose largest absolute entrywise change is at or below the
  tolerance, or after step \<open>10000\<close>, and returns \<open>get_greedy\<close> of iterate \<open>N\<close>. Every
  earlier step changed the array by more than the tolerance. When the change of the last
  step is still above the tolerance it prints the warning, and returns all the same.
\<close>

theorem value_iteration_result:
  assumes "model_shaped (Ny, Nz) arrays" and "0 < Ny" and "0 < Nz"
  shows "\<exists>N x e \<sigma>. 1 \<le> N \<and> N \<le> 10000 \<and>
     iterate_T constants (Ny, Nz) arrays N = Inr x \<and>
     step_change constants (Ny, Nz) arrays N = Inr e \<and>
     (\<forall>n. 1 \<le> n \<and> n < N \<longrightarrow>
        (\<exists>e'. step_change constants (Ny, Nz) arrays n = Inr e' \<and> tol < e')) \<and>
     (e \<le> tol \<or> N = 10000) \<and>
     get_greedy x constants (Ny, Nz) arrays = Inr \<sigma> \<and>
     value_iteration (constants, (Ny, Nz), arrays) tol
       = Inr (\<sigma>, if tol < e then [Warning 10000] else [])"
proof -
  define X where "X n = projr (iterate_T constants (Ny, Nz) arrays n)" for n
  define E where "E n = projr (step_change constants (Ny, Nz) arrays n)" for n
  let ?T = "\<lambda>v. T v constants (Ny, Nz) arrays"
  have X: "iterate_T constants (Ny, Nz) arrays n = Inr (X n)" and sh: "has_shape (X n) [Ny, Nz]" for n
    using iterate_T_shaped [OF assms(1,2), of constants n] by (auto simp: X_def)
  have X0: "X 0 = zeros [Ny, Nz]" using X [of 0] by simp
  have step: "?T (X n) = Inr (X (Suc n))" for n
    using X [of "Suc n"] by (simp add: X [of n])
  have ne: "prod_list [Ny, Nz] \<noteq> 0" using assms(2,3) by simp
  have chg: "max_abs_diff (X (Suc n)) (X n) = Inr (E (Suc n))" for n
  proof -
    from max_abs_diff_shaped [OF sh sh ne] obtain e where "max_abs_diff (X (Suc n)) (X n) = Inr e"
      by blast
    then show ?thesis by (simp add: E_def step_change_def X del: iterate_T.simps)
  qed
  have E: "step_change constants (Ny, Nz) arrays (Suc n) = Inr (E (Suc n))" for n
    using chg [of n] by (simp add: step_change_def X del: iterate_T.simps)
  from sa_loop_run [of ?T X E, OF step chg, of 0 tol 10000 25 "tol + 1" "[]"]
  obtain N where run: "sa_loop ?T tol 10000 25 False (X 0, tol + 1, Suc 0, [])
        = Inr (X N, (if N = 0 then tol + 1 else E N), Suc N, [])"
    and above: "\<forall>n. 0 < n \<and> n < N \<longrightarrow> tol < E n"
    and ran: "N \<noteq> 0 \<longrightarrow> tol < tol + 1 \<and> N \<le> 10000"
    and stop: "(if N = 0 then tol + 1 else E N) \<le> tol \<or> 10000 \<le> N"
    by blast
  have N0: "N \<noteq> 0" using stop by (cases "N = 0") auto
  then have N: "1 \<le> N" "N \<le> 10000" using ran by auto
  have stop': "E N \<le> tol \<or> N = 10000" using stop N0 N by auto
  have run': "sa_loop ?T tol 10000 25 False (zeros [Ny, Nz], tol + 1, Suc 0, []) = Inr (X N, E N, Suc N, [])"
    using run N0 by (simp add: X0)
  from get_greedy_shaped [OF assms(1) sh assms(2), of N constants] obtain \<sigma>
    where g: "get_greedy (X N) constants (Ny, Nz) arrays = Inr \<sigma>" by blast
  have vi: "value_iteration (constants, (Ny, Nz), arrays) tol
      = Inr (\<sigma>, if tol < E N then [Warning 10000] else [])"
    by (simp add: value_iteration.simps successive_approx_def run' g)
  have EN: "step_change constants (Ny, Nz) arrays N = Inr (E N)"
    using E [of "N - 1"] N0 by simp
  have before: "\<forall>n. 1 \<le> n \<and> n < N \<longrightarrow>
        (\<exists>e'. step_change constants (Ny, Nz) arrays n = Inr e' \<and> tol < e')"
  proof (intro allI impI)
    fix n assume n: "1 \<le> n \<and> n < N"
    then have "step_change constants (Ny, Nz) arrays n = Inr (E n)"
      using E [of "n - 1"] by simp
    moreover have "tol < E n" using above n by simp
    ultimately show "\<exists>e'. step_change constants (Ny, Nz) arrays n = Inr e' \<and> tol < e'" by blast
  qed
  show ?thesis
    using N X [of N] EN before stop' g vi by blast
qed

lemma ex3_shaped:
  "model_shaped (2, 1)
     (\<lparr>shape = [2], data = [0, 1 :: real]\<rparr>, \<lparr>shape = [1], data = [0]\<rparr>,
      \<lparr>shape = [1, 1], data = [1]\<rparr>)"
  by (simp add: model_shaped_def has_shape_def)

theorem value_iteration_result_witness:
  "\<exists>N x e \<sigma>. 1 \<le> N \<and> N \<le> 10000 \<and>
     iterate_T (1 / 2, 3, 1, 3 / 5, 1) (2, 1)
       (\<lparr>shape = [2], data = [0, 1]\<rparr>, \<lparr>shape = [1], data = [0]\<rparr>,
        \<lparr>shape = [1, 1], data = [1]\<rparr>) N = Inr x \<and>
     step_change (1 / 2, 3, 1, 3 / 5, 1) (2, 1)
       (\<lparr>shape = [2], data = [0, 1]\<rparr>, \<lparr>shape = [1], data = [0]\<rparr>,
        \<lparr>shape = [1, 1], data = [1]\<rparr>) N = Inr e \<and>
     (\<forall>n. 1 \<le> n \<and> n < N \<longrightarrow>
        (\<exists>e'. step_change (1 / 2, 3, 1, 3 / 5, 1) (2, 1)
           (\<lparr>shape = [2], data = [0, 1]\<rparr>, \<lparr>shape = [1], data = [0]\<rparr>,
            \<lparr>shape = [1, 1], data = [1]\<rparr>) n = Inr e' \<and> default_tol < e')) \<and>
     (e \<le> default_tol \<or> N = 10000) \<and>
     get_greedy x (1 / 2, 3, 1, 3 / 5, 1) (2, 1)
       (\<lparr>shape = [2], data = [0, 1]\<rparr>, \<lparr>shape = [1], data = [0]\<rparr>,
        \<lparr>shape = [1, 1], data = [1]\<rparr>) = Inr \<sigma> \<and>
     value_iteration ((1 / 2, 3, 1, 3 / 5, 1), (2, 1),
       (\<lparr>shape = [2], data = [0, 1]\<rparr>, \<lparr>shape = [1], data = [0]\<rparr>,
        \<lparr>shape = [1, 1], data = [1]\<rparr>)) default_tol
       = Inr (\<sigma>, if default_tol < e then [Warning 10000] else [])"
proof -
  have p: "(0::nat) < 2" and q: "(0::nat) < 1" by simp_all
  show ?thesis by (rule value_iteration_result [OF ex3_shaped p q])
qed

text \<open>
  The loop stops when the change is equal to the tolerance. With tolerance \<open>1\<close> on the
  model below, the first step changes the array by exactly \<open>1\<close> and the second by \<open>1 / 2\<close>:
  \<open>value_iteration\<close> returns the greedy policy of the first iterate, which differs from
  the greedy policy of the second.
\<close>

lemma ex3_value_iteration:
  "value_iteration ((1 / 2, 3, 1, 3 / 5, 1), (2, 1),
      (\<lparr>shape = [2], data = [0, 1]\<rparr>, \<lparr>shape = [1], data = [0]\<rparr>, \<lparr>shape = [1, 1], data = [1]\<rparr>)) 1
     = Inr (\<lparr>shape = [2, 1], data = [0, 1]\<rparr>, [])"
  by code_simp

lemma ex3_iterate_1:
  "iterate_T (1 / 2, 3, 1, 3 / 5, 1) (2, 1)
      (\<lparr>shape = [2], data = [0, 1]\<rparr>, \<lparr>shape = [1], data = [0]\<rparr>, \<lparr>shape = [1, 1], data = [1]\<rparr>) 1
     = Inr \<lparr>shape = [2, 1], data = [0, 1]\<rparr>"
  by code_simp

lemma ex3_iterate_2:
  "iterate_T (1 / 2, 3, 1, 3 / 5, 1) (2, 1)
      (\<lparr>shape = [2], data = [0, 1]\<rparr>, \<lparr>shape = [1], data = [0]\<rparr>, \<lparr>shape = [1, 1], data = [1]\<rparr>) 2
     = Inr \<lparr>shape = [2, 1], data = [0, 3 / 2]\<rparr>"
  by code_simp

lemma ex3_change_1:
  "step_change (1 / 2, 3, 1, 3 / 5, 1) (2, 1)
      (\<lparr>shape = [2], data = [0, 1]\<rparr>, \<lparr>shape = [1], data = [0]\<rparr>, \<lparr>shape = [1, 1], data = [1]\<rparr>) 1
     = Inr 1"
  by code_simp

lemma ex3_change_2:
  "step_change (1 / 2, 3, 1, 3 / 5, 1) (2, 1)
      (\<lparr>shape = [2], data = [0, 1]\<rparr>, \<lparr>shape = [1], data = [0]\<rparr>, \<lparr>shape = [1, 1], data = [1]\<rparr>) 2
     = Inr (1 / 2)"
  by code_simp

lemma ex3_greedy_1:
  "get_greedy \<lparr>shape = [2, 1], data = [0, 1]\<rparr> (1 / 2, 3, 1, 3 / 5, 1) (2, 1)
      (\<lparr>shape = [2], data = [0, 1]\<rparr>, \<lparr>shape = [1], data = [0]\<rparr>, \<lparr>shape = [1, 1], data = [1]\<rparr>)
     = Inr \<lparr>shape = [2, 1], data = [0, 1]\<rparr>"
  by code_simp

lemma ex3_greedy_2:
  "get_greedy \<lparr>shape = [2, 1], data = [0, 3 / 2]\<rparr> (1 / 2, 3, 1, 3 / 5, 1) (2, 1)
      (\<lparr>shape = [2], data = [0, 1]\<rparr>, \<lparr>shape = [1], data = [0]\<rparr>, \<lparr>shape = [1, 1], data = [1]\<rparr>)
     = Inr \<lparr>shape = [2, 1], data = [1, 1]\<rparr>"
  by code_simp

theorem value_iteration_stops_at_tolerance:
  "value_iteration ((1 / 2, 3, 1, 3 / 5, 1), (2, 1),
      (\<lparr>shape = [2], data = [0, 1]\<rparr>, \<lparr>shape = [1], data = [0]\<rparr>, \<lparr>shape = [1, 1], data = [1]\<rparr>)) 1
     = Inr (\<lparr>shape = [2, 1], data = [0, 1]\<rparr>, []) \<and>
   step_change (1 / 2, 3, 1, 3 / 5, 1) (2, 1)
      (\<lparr>shape = [2], data = [0, 1]\<rparr>, \<lparr>shape = [1], data = [0]\<rparr>, \<lparr>shape = [1, 1], data = [1]\<rparr>) 1
     = Inr 1 \<and> \<not> (1::real) < 1 \<and>
   step_change (1 / 2, 3, 1, 3 / 5, 1) (2, 1)
      (\<lparr>shape = [2], data = [0, 1]\<rparr>, \<lparr>shape = [1], data = [0]\<rparr>, \<lparr>shape = [1, 1], data = [1]\<rparr>) 2
     = Inr (1 / 2) \<and> (1 / 2 :: real) < 1 \<and>
   iterate_T (1 / 2, 3, 1, 3 / 5, 1) (2, 1)
      (\<lparr>shape = [2], data = [0, 1]\<rparr>, \<lparr>shape = [1], data = [0]\<rparr>, \<lparr>shape = [1, 1], data = [1]\<rparr>) 2
     = Inr \<lparr>shape = [2, 1], data = [0, 3 / 2]\<rparr> \<and>
   get_greedy \<lparr>shape = [2, 1], data = [0, 3 / 2]\<rparr> (1 / 2, 3, 1, 3 / 5, 1) (2, 1)
      (\<lparr>shape = [2], data = [0, 1]\<rparr>, \<lparr>shape = [1], data = [0]\<rparr>, \<lparr>shape = [1, 1], data = [1]\<rparr>)
     = Inr \<lparr>shape = [2, 1], data = [1, 1]\<rparr> \<and>
   \<lparr>shape = [2, 1], data = [0, 1 :: int]\<rparr> \<noteq> \<lparr>shape = [2, 1], data = [1, 1]\<rparr>"
  unfolding ex3_value_iteration ex3_change_1 ex3_change_2 ex3_iterate_2 ex3_greedy_2 by simp

subsection \<open>Policy iteration\<close>




lemma max_abs_diff_zero:
  fixes a b :: "'a::linordered_idom ndarray"
  assumes "has_shape a s" and "has_shape b s" and "max_abs_diff a b = Inr e" and "e \<le> 0"
  shows "a = b"
proof -
  have a: "a = tab s (elem a)" and b: "b = tab s (elem b)"
    using assms(1,2) by (simp_all add: has_shape_tab)
  let ?xs = "map (\<lambda>m. \<bar>elem a (unravel s m) - elem b (unravel s m)\<bar>) [0..<prod_list s]"
  have m: "max_abs_diff (tab s (elem a)) (tab s (elem b)) = Inr e" using assms(3) a b by simp
  have ne: "prod_list s \<noteq> 0"
  proof
    assume "prod_list s = 0"
    then show False
      using m by (simp add: max_abs_diff_def bop_same_tab amap_tab max_all_def) (simp add: tab_def)
  qed
  have e: "e = max_list ?xs" using m by (simp add: max_abs_diff_tab [OF ne])
  have "tab s (elem a) = tab s (elem b)"
  proof (rule tab_cong)
    fix idx assume idx: "list_all2 (<) idx s"
    have "\<bar>elem a idx - elem b idx\<bar> \<in> set ?xs"
      unfolding set_map
      by (intro image_eqI [where x = "ravel s idx"]) (simp_all add: ravel_less idx unravel_ravel)
    then have "\<bar>elem a idx - elem b idx\<bar> \<le> e" unfolding e by (rule max_list_ge)
    then show "elem a idx = elem b idx" using assms(4) by simp
  qed
  then show ?thesis using a b by simp
qed





subsection \<open>Model construction checks nothing\<close>

lemma value_iteration_wrong_grid:
  assumes "length (data y_grid) \<noteq> Ny"
  shows "value_iteration (constants, (Ny, Nz), (y_grid, z_grid, Q)) tol = Inl ReshapeError"
proof -
  obtain \<beta> a_0 a_1 \<gamma> c where c: "constants = (\<beta>, a_0, a_1, \<gamma>, c)" by (cases constants)
  have "T v constants (Ny, Nz) (y_grid, z_grid, Q) = Inl ReshapeError" for v
    using assms by (simp add: c T.simps B.simps reshape_def)
  then have "sa_loop (\<lambda>v. T v constants (Ny, Nz) (y_grid, z_grid, Q)) tol 10000 25 False
      (zeros [Ny, Nz], tol + 1, 1, []) = Inl ReshapeError"
    by (subst sa_loop.simps) simp
  then show ?thesis
    by (simp add: value_iteration.simps successive_approx_def)
qed

text \<open>
  C8, as the code has it. \<open>create_investment_model\<close> checks nothing, and no error of the
  program is a configuration error. For every interest rate \<open>r\<close> other than \<open>-1\<close> it
  returns the model with \<open>\<beta> = 1 / (1 + r)\<close>, the \<open>linspace\<close> grid, and the shock grid and
  transition matrix as the discretisation routine gave them; for \<open>r = -1\<close> the division
  fails. A grid whose length is not the stated size is found only when an operator
  reshapes it: \<open>value_iteration\<close> then fails in its first round, with the reshape error.
\<close>

theorem create_investment_model_unchecked:
  "(1 + r \<noteq> 0 \<longrightarrow> tauchen' \<rho> \<nu> z_size = Inr (z_grid, Q) \<longrightarrow>
      create_investment_model tauchen' r a_0 a_1 \<gamma> c y_min y_max y_size \<rho> \<nu> z_size
        = Inr \<lparr>model_\<beta> = 1 / (1 + r), model_a_0 = a_0, model_a_1 = a_1, model_\<gamma> = \<gamma>,
               model_c = c, model_y_size = y_size, model_z_size = z_size,
               model_y_grid = linspace y_min y_max y_size, model_z_grid = z_grid, model_Q = Q\<rparr>) \<and>
   (1 + r = 0 \<longrightarrow>
      create_investment_model tauchen' r a_0 a_1 \<gamma> c y_min y_max y_size \<rho> \<nu> z_size
        = Inl ZeroDivisionError) \<and>
   (length (data y_grid') \<noteq> Ny \<longrightarrow>
      value_iteration (constants, (Ny, Nz), (y_grid', z_grid', Q')) tol = Inl ReshapeError)"
  by (simp add: create_investment_model_def value_iteration_wrong_grid)

lemma ex_iid_chain:
  "iid_chain (9 / 10) 1 2
     = Inr (\<lparr>shape = [2], data = [-1, 1]\<rparr>, \<lparr>shape = [2, 2], data = [1 / 2, 1 / 2, 1 / 2, 1 / 2]\<rparr>)"
  by code_simp

lemma ex_linspace: "linspace 0 20 2 = \<lparr>shape = [2], data = [0, 20]\<rparr>"
  by code_simp

theorem create_investment_model_unchecked_witness:
  "create_investment_model iid_chain (1 / 100) 10 1 25 1 0 20 2 (9 / 10) 1 2
        = Inr \<lparr>model_\<beta> = 100 / 101, model_a_0 = 10, model_a_1 = 1, model_\<gamma> = 25,
               model_c = 1, model_y_size = 2, model_z_size = 2,
               model_y_grid = \<lparr>shape = [2], data = [0, 20]\<rparr>,
               model_z_grid = \<lparr>shape = [2], data = [-1, 1]\<rparr>,
               model_Q = \<lparr>shape = [2, 2], data = [1 / 2, 1 / 2, 1 / 2, 1 / 2]\<rparr>\<rparr> \<and>
   create_investment_model iid_chain (- 1) 10 1 25 1 0 20 2 (9 / 10) 1 2 = Inl ZeroDivisionError \<and>
   value_iteration ((1 / 2, 10, 1, 25, 1), (2, 2),
     (\<lparr>shape = [3], data = [0, 10, 20]\<rparr>, \<lparr>shape = [2], data = [-1, 1]\<rparr>,
      \<lparr>shape = [2, 2], data = [1 / 2, 1 / 2, 1 / 2, 1 / 2]\<rparr>)) default_tol = Inl ReshapeError"
proof -
  have a: "create_investment_model iid_chain (1 / 100) 10 1 25 1 0 20 2 (9 / 10) 1 2
        = Inr \<lparr>model_\<beta> = 100 / 101, model_a_0 = 10, model_a_1 = 1, model_\<gamma> = 25,
               model_c = 1, model_y_size = 2, model_z_size = 2,
               model_y_grid = \<lparr>shape = [2], data = [0, 20]\<rparr>,
               model_z_grid = \<lparr>shape = [2], data = [-1, 1]\<rparr>,
               model_Q = \<lparr>shape = [2, 2], data = [1 / 2, 1 / 2, 1 / 2, 1 / 2]\<rparr>\<rparr>"
    using create_investment_model_unchecked [of "1 / 100" iid_chain "9 / 10" 1 2
        "\<lparr>shape = [2], data = [-1, 1]\<rparr>" "\<lparr>shape = [2, 2], data = [1 / 2, 1 / 2, 1 / 2, 1 / 2]\<rparr>"
        10 1 25 1 0 20 2]
    by (simp add: ex_iid_chain ex_linspace)
  have b: "create_investment_model iid_chain (- 1) 10 1 25 1 0 20 2 (9 / 10) 1 2 = Inl ZeroDivisionError"
    using create_investment_model_unchecked [of "- 1" iid_chain "9 / 10" 1 2 _ _ 10 1 25 1 0 20 2]
    by simp
  have c: "value_iteration ((1 / 2, 10, 1, 25, 1), (2, 2),
     (\<lparr>shape = [3], data = [0, 10, 20]\<rparr>, \<lparr>shape = [2], data = [-1, 1]\<rparr>,
      \<lparr>shape = [2, 2], data = [1 / 2, 1 / 2, 1 / 2, 1 / 2]\<rparr>)) default_tol = Inl ReshapeError"
    using create_investment_model_unchecked [where y_grid' = "\<lparr>shape = [3], data = [0, 10, 20]\<rparr>"
        and Ny = 2]
    by simp
  from a b c show ?thesis by simp
qed

text \<open>
  An interest rate of \<open>-1 / 2\<close> gives the discount factor \<open>2\<close>, and the model is returned;
  a grid of three points with \<open>y_size = 2\<close> makes \<open>value_iteration\<close> fail inside its loop.
\<close>

lemma ex_create_invalid:
  "create_investment_model iid_chain (- 1 / 2) 10 1 25 1 0 20 2 (9 / 10) 1 2
        = Inr \<lparr>model_\<beta> = 2, model_a_0 = 10, model_a_1 = 1, model_\<gamma> = 25,
               model_c = 1, model_y_size = 2, model_z_size = 2,
               model_y_grid = \<lparr>shape = [2], data = [0, 20]\<rparr>,
               model_z_grid = \<lparr>shape = [2], data = [-1, 1]\<rparr>,
               model_Q = \<lparr>shape = [2, 2], data = [1 / 2, 1 / 2, 1 / 2, 1 / 2]\<rparr>\<rparr>"
  by code_simp

lemma ex_value_iteration_mismatch:
  "value_iteration ((1 / 2, 10, 1, 25, 1), (2, 2),
     (\<lparr>shape = [3], data = [0, 10, 20]\<rparr>, \<lparr>shape = [2], data = [-1, 1]\<rparr>,
      \<lparr>shape = [2, 2], data = [1 / 2, 1 / 2, 1 / 2, 1 / 2]\<rparr>)) default_tol = Inl ReshapeError"
  by code_simp

theorem invalid_configuration_accepted:
  "create_investment_model iid_chain (- 1 / 2) 10 1 25 1 0 20 2 (9 / 10) 1 2
        = Inr \<lparr>model_\<beta> = 2, model_a_0 = 10, model_a_1 = 1, model_\<gamma> = 25,
               model_c = 1, model_y_size = 2, model_z_size = 2,
               model_y_grid = \<lparr>shape = [2], data = [0, 20]\<rparr>,
               model_z_grid = \<lparr>shape = [2], data = [-1, 1]\<rparr>,
               model_Q = \<lparr>shape = [2, 2], data = [1 / 2, 1 / 2, 1 / 2, 1 / 2]\<rparr>\<rparr> \<and>
   \<not> ((0::real) < 2 \<and> (2::real) < 1) \<and>
   value_iteration ((1 / 2, 10, 1, 25, 1), (2, 2),
     (\<lparr>shape = [3], data = [0, 10, 20]\<rparr>, \<lparr>shape = [2], data = [-1, 1]\<rparr>,
      \<lparr>shape = [2, 2], data = [1 / 2, 1 / 2, 1 / 2, 1 / 2]\<rparr>)) default_tol = Inl ReshapeError"
  unfolding ex_create_invalid ex_value_iteration_mismatch by simp

subsection \<open>Policy evaluation with exact solvers\<close>

lemma R_sigma_tab:
  assumes "model_shaped (Ny, Nz) (y_grid, z_grid, Q)" and "has_shape v [Ny, Nz]"
    and "has_shape \<sigma> [Ny, Nz]" and "0 < Ny" and "0 < Nz"
  shows "R_sigma v \<sigma> (\<beta>, a_0, a_1, \<gamma>, c) (Ny, Nz) (y_grid, z_grid, Q) =
    Inr (tab [Ny, Nz] (\<lambda>idx.
       elem v idx - \<beta> * EVal v Q Nz (idx ! 1) (norm_index Ny (elem \<sigma> idx))))"
proof -
  have "R_sigma (tab [Ny, Nz] (elem v)) (tab [Ny, Nz] (elem \<sigma>)) (\<beta>, a_0, a_1, \<gamma>, c) (Ny, Nz)
          (y_grid, z_grid, tab [Nz, Nz] (elem Q)) =
    Inr (tab [Ny, Nz] (\<lambda>idx.
       elem v idx - \<beta> * EVal v Q Nz (idx ! 1) (norm_index Ny (elem \<sigma> idx))))"
    unfolding R_sigma.simps
    using assms(4,5)
    apply (simp add: arith_defs reshape_tab bop_tab amap_tab arange_tab
        take_nd2_tab jnp_sum_def reduce_tab3 broadcast_simps)
    apply (rule tab_cong)
    apply (auto simp: inb2 bc_def EVal_def sum_list_upt elem_tab)
    done
  then show ?thesis
    using assms(1,2,3) by (simp add: model_shaped_def flip: has_shape_tab)
qed

lemma tab_eq_iff:
  "tab s g = tab s h \<longleftrightarrow> (\<forall>idx. list_all2 (<) idx s \<longrightarrow> g idx = h idx)"
proof
  assume e: "tab s g = tab s h"
  show "\<forall>idx. list_all2 (<) idx s \<longrightarrow> g idx = h idx"
  proof (intro allI impI)
    fix idx assume i: "list_all2 (<) idx s"
    have "elem (tab s g) idx = elem (tab s h) idx" using e by simp
    then show "g idx = h idx" using i by (simp add: elem_tab)
  qed
next
  assume "\<forall>idx. list_all2 (<) idx s \<longrightarrow> g idx = h idx"
  then show "tab s g = tab s h" by (intro tab_cong) simp
qed

text \<open>A fixed point of the policy operator is unique.\<close>

lemma T_sigma_fixed_point_unique:
  assumes m: "model_shaped (Ny, Nz) (y_grid, z_grid, Q)"
    and v: "has_shape v [Ny, Nz]" and w: "has_shape w [Ny, Nz]" and s: "has_shape \<sigma> [Ny, Nz]"
    and b: "0 \<le> \<beta>" "\<beta> < 1" and Q: "row_stochastic Q Nz"
    and fv: "T_sigma v \<sigma> (\<beta>, a_0, a_1, \<gamma>, c) (Ny, Nz) (y_grid, z_grid, Q) = Inr v"
    and fw: "T_sigma w \<sigma> (\<beta>, a_0, a_1, \<gamma>, c) (Ny, Nz) (y_grid, z_grid, Q) = Inr w"
  shows "v = w"
proof (cases "0 < Ny \<and> 0 < Nz")
  case False
  then have "prod_list [Ny, Nz] = 0" by auto
  then have "data v = []" "data w = []" using v w by (auto simp: has_shape_def)
  then show ?thesis using v w by (cases v, cases w) (simp add: has_shape_def)
next
  case True
  then have Ny: "0 < Ny" and Nz: "0 < Nz" by simp_all
  let ?k = "\<lambda>idx. norm_index Ny (elem \<sigma> idx)"
  have ne: "prod_list [Ny, Nz] \<noteq> 0" using Ny Nz by simp
  have veq: "v = tab [Ny, Nz] (elem v)" and weq: "w = tab [Ny, Nz] (elem w)"
    using v w by (simp_all add: has_shape_tab)
  have ev: "elem v idx = B_spec v (\<beta>, a_0, a_1, \<gamma>, c) (Ny, Nz) (y_grid, z_grid, Q) (idx ! 0) (idx ! 1) (?k idx)"
    if "list_all2 (<) idx [Ny, Nz]" for idx
    using fv that unfolding T_sigma_tab [OF m v s Ny Nz]
    by (subst (asm) (2) veq) (simp add: tab_eq_iff)
  have ew: "elem w idx = B_spec w (\<beta>, a_0, a_1, \<gamma>, c) (Ny, Nz) (y_grid, z_grid, Q) (idx ! 0) (idx ! 1) (?k idx)"
    if "list_all2 (<) idx [Ny, Nz]" for idx
    using fw that unfolding T_sigma_tab [OF m w s Ny Nz]
    by (subst (asm) (2) weq) (simp add: tab_eq_iff)
  let ?ds = "map (\<lambda>m. \<bar>elem v (unravel [Ny, Nz] m) - elem w (unravel [Ny, Nz] m)\<bar>) [0..<prod_list [Ny, Nz]]"
  let ?d = "max_list ?ds"
  have d: "max_abs_diff v w = Inr ?d"
    by (subst veq, subst weq) (rule max_abs_diff_tab [OF ne])
  have le: "\<bar>elem v [i, j] - elem w [i, j]\<bar> \<le> ?d" if "i < Ny" "j < Nz" for i j
  proof (rule max_list_ge)
    have "ravel [Ny, Nz] [i, j] < prod_list [Ny, Nz]" by (rule ravel_less) (simp add: that)
    moreover have "unravel [Ny, Nz] (ravel [Ny, Nz] [i, j]) = [i, j]"
      by (rule unravel_ravel) (simp add: that)
    ultimately show "\<bar>elem v [i, j] - elem w [i, j]\<bar> \<in> set ?ds"
      unfolding set_map by (intro image_eqI [where x = "ravel [Ny, Nz] [i, j]"]) simp_all
  qed
  have "?d \<le> \<beta> * ?d"
  proof (rule max_list_le)
    show "?ds \<noteq> []" using ne by simp
    fix x assume "x \<in> set ?ds"
    then obtain m where m': "m < prod_list [Ny, Nz]"
      and x: "x = \<bar>elem v (unravel [Ny, Nz] m) - elem w (unravel [Ny, Nz] m)\<bar>" by auto
    from unravel_inb [OF m'] obtain i j where u: "unravel [Ny, Nz] m = [i, j]" and i: "i < Ny" and j: "j < Nz"
      by (auto simp: inb2)
    have ib: "list_all2 (<) [i, j] [Ny, Nz]" using i j by simp
    have k: "?k [i, j] < Ny" by (rule norm_index_less [OF Ny])
    have "\<bar>EVal v Q Nz j (?k [i, j]) - EVal w Q Nz j (?k [i, j])\<bar> \<le> ?d"
      by (rule EVal_close [OF Q j]) (rule le [OF k])
    then have "\<beta> * \<bar>EVal v Q Nz j (?k [i, j]) - EVal w Q Nz j (?k [i, j])\<bar> \<le> \<beta> * ?d"
      using b(1) by (simp add: mult_left_mono)
    moreover have "elem v [i, j] - elem w [i, j]
        = \<beta> * (EVal v Q Nz j (?k [i, j]) - EVal w Q Nz j (?k [i, j]))"
      unfolding ev [OF ib] ew [OF ib] by (simp add: B_spec.simps right_diff_distrib)
    ultimately show "x \<le> \<beta> * ?d" unfolding x u using b(1) by (simp add: abs_mult)
  qed
  moreover have "0 \<le> ?d"
  proof -
    have "\<bar>elem v [0, 0] - elem w [0, 0]\<bar> \<le> ?d" by (rule le [OF Ny Nz])
    then show ?thesis by linarith
  qed
  ultimately have "?d \<le> 0"
    using b(2) by (smt (verit) mult_left_le_one_le mult.commute mult_less_cancel_right2)
  from max_abs_diff_zero [OF v w d this] show ?thesis .
qed


lemma fixed_point_from_residual:
  assumes m: "model_shaped (Ny, Nz) (y_grid, z_grid, Q)"
    and v: "has_shape v [Ny, Nz]" and s: "has_shape \<sigma> [Ny, Nz]" and Ny: "0 < Ny" and Nz: "0 < Nz"
    and res: "\<And>i j. i < Ny \<Longrightarrow> j < Nz \<Longrightarrow>
        elem v [i, j] - \<beta> * EVal v Q Nz j (norm_index Ny (elem \<sigma> [i, j]))
          = rew a_0 a_1 \<gamma> c (elem y_grid [i]) (elem z_grid [j])
              (elem y_grid [norm_index Ny (elem \<sigma> [i, j])])"
  shows "T_sigma v \<sigma> (\<beta>, a_0, a_1, \<gamma>, c) (Ny, Nz) (y_grid, z_grid, Q) = Inr v"
proof -
  have "tab [Ny, Nz] (\<lambda>idx.
       B_spec v (\<beta>, a_0, a_1, \<gamma>, c) (Ny, Nz) (y_grid, z_grid, Q) (idx ! 0) (idx ! 1)
         (norm_index Ny (elem \<sigma> idx))) = tab [Ny, Nz] (elem v)"
  proof (rule tab_cong)
    fix idx assume "list_all2 (<) idx [Ny, Nz]"
    then obtain i j where idx: "idx = [i, j]" and i: "i < Ny" and j: "j < Nz" by (auto simp: inb2)
    show "B_spec v (\<beta>, a_0, a_1, \<gamma>, c) (Ny, Nz) (y_grid, z_grid, Q) (idx ! 0) (idx ! 1)
         (norm_index Ny (elem \<sigma> idx)) = elem v idx"
      using res [OF i j] by (simp add: idx B_spec.simps)
  qed
  then show ?thesis
    unfolding T_sigma_tab [OF m v s Ny Nz] using has_shape_tab [OF v] by simp
qed

text \<open>
  If the iterative solver answers a solution of \<open>A x = b\<close> of the shape of \<open>b\<close>, the array
  that \<open>get_value\<close> returns is a fixed point of the policy operator.
\<close>

lemma get_value_fixed_point:
  assumes m: "model_shaped (Ny, Nz) (y_grid, z_grid, Q)"
    and s: "has_shape \<sigma> [Ny, Nz]" and Ny: "0 < Ny" and Nz: "0 < Nz"
    and exact: "\<And>A b x. bicgstab A b = Inr x \<Longrightarrow> has_shape x (shape b) \<and> A x = Inr b"
    and gv: "get_value bicgstab \<sigma> (\<beta>, a_0, a_1, \<gamma>, c) (Ny, Nz) (y_grid, z_grid, Q) = Inr v"
  shows "has_shape v [Ny, Nz] \<and>
     T_sigma v \<sigma> (\<beta>, a_0, a_1, \<gamma>, c) (Ny, Nz) (y_grid, z_grid, Q) = Inr v"
proof -
  let ?rg = "\<lambda>idx. rew a_0 a_1 \<gamma> c (elem y_grid [idx ! 0]) (elem z_grid [idx ! 1])
         (elem y_grid [norm_index Ny (elem \<sigma> idx)])"
  let ?A = "\<lambda>v. R_sigma v \<sigma> (\<beta>, a_0, a_1, \<gamma>, c) (Ny, Nz) (y_grid, z_grid, Q)"
  have "bicgstab ?A (tab [Ny, Nz] ?rg) = Inr v"
    using gv by (simp add: get_value.simps compute_r_sigma_tab [OF m s Ny])
  from exact [OF this] have v: "has_shape v [Ny, Nz]" and r: "?A v = Inr (tab [Ny, Nz] ?rg)"
    by (simp_all add: shape_tab)
  have a: "\<forall>idx. list_all2 (<) idx [Ny, Nz] \<longrightarrow>
      elem v idx - \<beta> * EVal v Q Nz (idx ! 1) (norm_index Ny (elem \<sigma> idx)) = ?rg idx"
    using r unfolding R_sigma_tab [OF m v s Ny Nz] by (simp add: tab_eq_iff)
  have "T_sigma v \<sigma> (\<beta>, a_0, a_1, \<gamma>, c) (Ny, Nz) (y_grid, z_grid, Q) = Inr v"
  proof (rule fixed_point_from_residual [OF m v s Ny Nz])
    fix i j assume "i < Ny" "j < Nz"
    then have "list_all2 (<) [i, j] [Ny, Nz]" by simp
    from a [rule_format, OF this]
    show "elem v [i, j] - \<beta> * EVal v Q Nz j (norm_index Ny (elem \<sigma> [i, j]))
          = rew a_0 a_1 \<gamma> c (elem y_grid [i]) (elem z_grid [j])
              (elem y_grid [norm_index Ny (elem \<sigma> [i, j])])"
      by simp
  qed
  with v show ?thesis by simp
qed


lemma P_row_sum:
  assumes \<sigma>: "0 \<le> elem \<sigma> [i, j]" "elem \<sigma> [i, j] < int Ny"
  shows "(\<Sum>mp<Ny * Nz. P_spec \<sigma> Q i j (unravel [Ny, Nz] mp ! 0) (unravel [Ny, Nz] mp ! 1)
            * elem v (unravel [Ny, Nz] mp))
     = EVal v Q Nz j (nat (elem \<sigma> [i, j]))"
proof -
  have "(\<Sum>mp<Ny * Nz. P_spec \<sigma> Q i j (unravel [Ny, Nz] mp ! 0) (unravel [Ny, Nz] mp ! 1)
            * elem v (unravel [Ny, Nz] mp))
      = (\<Sum>ip<Ny. \<Sum>jp<Nz. P_spec \<sigma> Q i j ([ip, jp] ! 0) ([ip, jp] ! 1) * elem v [ip, jp])"
    by (rule sum_unravel2 [where F = "\<lambda>q. P_spec \<sigma> Q i j (q ! 0) (q ! 1) * elem v q"])
  also have "\<dots> = (\<Sum>ip<Ny. (if elem \<sigma> [i, j] = int ip then 1 else 0) *
          (\<Sum>jp<Nz. elem Q [j, jp] * elem v [ip, jp]))"
    by (simp add: P_spec_def sum_distrib_left mult_ac)
  also have "\<dots> = (\<Sum>jp<Nz. elem Q [j, jp] * elem v [nat (elem \<sigma> [i, j]), jp])"
    by (rule sum_indicator [OF \<sigma>])
  also have "\<dots> = EVal v Q Nz j (nat (elem \<sigma> [i, j]))"
    by (simp add: EVal_def mult_ac)
  finally show ?thesis .
qed

text \<open>
  If the dense solver answers a solution of \<open>M x = b\<close> of the shape of \<open>b\<close>, the array that
  \<open>get_value_matrix_version\<close> returns is a fixed point of the policy operator.
\<close>

lemma get_value_matrix_version_fixed_point:
  assumes m: "model_shaped (Ny, Nz) (y_grid, z_grid, Q)"
    and s: "has_shape \<sigma> [Ny, Nz]" and Ny: "0 < Ny" and Nz: "0 < Nz"
    and range: "policy_in_range \<sigma> Ny Nz"
    and exact: "\<And>M b x. solve M b = Inr x \<Longrightarrow> has_shape x (shape b) \<and> matvec M x = Inr b"
    and gv: "get_value_matrix_version solve \<sigma> (\<beta>, a_0, a_1, \<gamma>, c) (Ny, Nz) (y_grid, z_grid, Q) = Inr v"
  shows "has_shape v [Ny, Nz] \<and>
     T_sigma v \<sigma> (\<beta>, a_0, a_1, \<gamma>, c) (Ny, Nz) (y_grid, z_grid, Q) = Inr v"
proof -
  let ?n = "Ny * Nz"
  let ?rg = "\<lambda>idx. rew a_0 a_1 \<gamma> c (elem y_grid [idx ! 0]) (elem z_grid [idx ! 1])
         (elem y_grid [norm_index Ny (elem \<sigma> idx)])"
  let ?Pg = "\<lambda>idx. P_spec \<sigma> Q (idx ! 0) (idx ! 1) (idx ! 2) (idx ! 3)"
  let ?P' = "\<lambda>idx. ?Pg (unravel [Ny, Nz, Ny, Nz] (ravel [?n, ?n] idx))"
  let ?r' = "\<lambda>idx. ?rg (unravel [Ny, Nz] (ravel [?n] idx))"
  let ?M = "\<lambda>idx. (if idx ! 0 = idx ! 1 then 1 else 0) - \<beta> * ?P' idx"
  have p4: "prod_list [?n, ?n] = prod_list [Ny, Nz, Ny, Nz]" by simp
  have s1: "reshape (tab [Ny, Nz, Ny, Nz] ?Pg) [?n, ?n] = Inr (tab [?n, ?n] ?P')"
    unfolding reshape_tab using p4 by simp
  have s2: "reshape (tab [Ny, Nz] ?rg) [?n] = Inr (tab [?n] ?r')"
    unfolding reshape_tab by simp
  have s4: "rmul (const \<beta>) (Inr (tab [?n, ?n] ?P')) = Inr (tab [?n, ?n] (\<lambda>idx. \<beta> * ?P' idx))"
    by (simp add: arith_defs bop_scalar_tab)
  have s5: "rsub (Inr (identity ?n)) (Inr (tab [?n, ?n] (\<lambda>idx. \<beta> * ?P' idx))) = Inr (tab [?n, ?n] ?M)"
    by (simp add: arith_defs identity_def bop_same_tab)
  have run: "get_value_matrix_version solve \<sigma> (\<beta>, a_0, a_1, \<gamma>, c) (Ny, Nz) (y_grid, z_grid, Q)
      = and_then (solve (tab [?n, ?n] ?M) (tab [?n] ?r')) (\<lambda>v_\<sigma>. reshape v_\<sigma> [Ny, Nz])"
    unfolding get_value_matrix_version.simps compute_r_sigma_tab [OF m s Ny]
      compute_P_sigma_tab [OF m s] and_then_simps Let_def s1 s2 s4 s5
    by (rule refl)
  from gv obtain x where x: "solve (tab [?n, ?n] ?M) (tab [?n] ?r') = Inr x"
    and vx: "reshape x [Ny, Nz] = Inr v"
    unfolding run by (cases "solve (tab [?n, ?n] ?M) (tab [?n] ?r')") simp_all
  from exact [OF x] have xs: "has_shape x [?n]" and mv: "matvec (tab [?n, ?n] ?M) x = Inr (tab [?n] ?r')"
    by (simp_all add: shape_tab)
  have xt: "x = tab [?n] (elem x)" using xs by (rule has_shape_tab)
  have v: "v = tab [Ny, Nz] (\<lambda>idx. elem x (unravel [?n] (ravel [Ny, Nz] idx)))"
    using vx by (subst (asm) xt) (simp add: reshape_tab)
  have vs: "has_shape v [Ny, Nz]" by (subst v) simp
  have ex: "elem x [mp] = elem v (unravel [Ny, Nz] mp)" if "mp < ?n" for mp
  proof -
    have "elem v (unravel [Ny, Nz] mp) = elem x (unravel [?n] (ravel [Ny, Nz] (unravel [Ny, Nz] mp)))"
      by (subst v) (simp add: elem_tab unravel_inb that del: unravel.simps ravel.simps)
    also have "ravel [Ny, Nz] (unravel [Ny, Nz] mp) = mp"
      by (rule ravel_unravel) (simp add: that)
    finally show ?thesis by simp
  qed
  have rows: "\<forall>idx. list_all2 (<) idx [?n] \<longrightarrow>
      (\<Sum>mp<?n. ?M [idx ! 0, mp] * elem x [mp]) = ?r' idx"
    using mv by (subst (asm) xt) (simp add: matvec_tab tab_eq_iff del: unravel.simps ravel.simps)
  have "T_sigma v \<sigma> (\<beta>, a_0, a_1, \<gamma>, c) (Ny, Nz) (y_grid, z_grid, Q) = Inr v"
  proof (rule fixed_point_from_residual [OF m vs s Ny Nz])
    fix i j assume i: "i < Ny" and j: "j < Nz"
    let ?m = "i * Nz + j"
    have mn: "?m < ?n" using ravel_less [of "[i, j]" "[Ny, Nz]"] i j by simp
    have \<sigma>: "0 \<le> elem \<sigma> [i, j]" "elem \<sigma> [i, j] < int Ny"
      using range i j by (simp_all add: policy_in_range_def)
    have k: "norm_index Ny (elem \<sigma> [i, j]) = nat (elem \<sigma> [i, j])"
      using \<sigma> by (rule norm_index_nat)
    have U: "unravel [Ny, Nz, Ny, Nz] (ravel [?n, ?n] [?m, mp]) = [i, j] @ unravel [Ny, Nz] mp"
      if "mp < ?n" for mp
    proof -
      have "unravel ([Ny, Nz] @ [Ny, Nz]) (?m * prod_list [Ny, Nz] + mp)
          = unravel [Ny, Nz] ?m @ unravel [Ny, Nz] mp"
        by (rule unravel_append) (use mn that in simp_all)
      moreover have "unravel [Ny, Nz] ?m = [i, j]" using i j by simp
      moreover have "ravel [?n, ?n] [?m, mp] = ?m * prod_list [Ny, Nz] + mp" by simp
      ultimately show ?thesis by (simp del: unravel.simps ravel.simps)
    qed
    have Pm: "?P' [?m, mp] * elem x [mp]
        = P_spec \<sigma> Q i j (unravel [Ny, Nz] mp ! 0) (unravel [Ny, Nz] mp ! 1) * elem v (unravel [Ny, Nz] mp)"
      if "mp < ?n" for mp
      by (simp only: U [OF that] ex [OF that]) simp
    have "list_all2 (<) [?m] [?n]" using mn by simp
    from rows [rule_format, OF this]
    have "(\<Sum>mp<?n. ?M [?m, mp] * elem x [mp]) = ?r' [?m]" by (simp del: unravel.simps ravel.simps)
    moreover have "?r' [?m] = ?rg [i, j]" using i j by simp
    moreover have "(\<Sum>mp<?n. ?M [?m, mp] * elem x [mp])
        = (\<Sum>mp<?n. (if mp = ?m then elem x [mp] else 0)) - \<beta> * (\<Sum>mp<?n. ?P' [?m, mp] * elem x [mp])"
      by (simp add: left_diff_distrib sum_subtractf sum_distrib_left mult.assoc if_distrib [of "\<lambda>t. t * _"]
          eq_commute [of ?m] cong: if_cong del: unravel.simps ravel.simps)
    moreover have "(\<Sum>mp<?n. (if mp = ?m then elem x [mp] else 0)) = elem x [?m]"
      using mn by (simp add: sum.delta)
    moreover have "elem x [?m] = elem v [i, j]" using ex [OF mn] i j by simp
    moreover have "(\<Sum>mp<?n. ?P' [?m, mp] * elem x [mp]) = EVal v Q Nz j (nat (elem \<sigma> [i, j]))"
    proof -
      have "(\<Sum>mp<?n. ?P' [?m, mp] * elem x [mp])
          = (\<Sum>mp<?n. P_spec \<sigma> Q i j (unravel [Ny, Nz] mp ! 0) (unravel [Ny, Nz] mp ! 1)
               * elem v (unravel [Ny, Nz] mp))"
        by (rule sum.cong, rule refl) (simp only: lessThan_iff Pm)
      then show ?thesis by (simp only: P_row_sum [OF \<sigma>])
    qed
    ultimately show "elem v [i, j] - \<beta> * EVal v Q Nz j (norm_index Ny (elem \<sigma> [i, j]))
          = rew a_0 a_1 \<gamma> c (elem y_grid [i]) (elem z_grid [j])
              (elem y_grid [norm_index Ny (elem \<sigma> [i, j])])"
      by (simp only: k) simp
  qed
  with vs show ?thesis by simp
qed


text \<open>
  Policy evaluation with exact solvers. When each solver answers a solution of the system
  it is given, \<open>get_value\<close> and \<open>get_value_matrix_version\<close> return the same array, and it
  is the only fixed point of the policy operator. What the two return when the solvers
  stop at a tolerance is not a matter of this theory.
\<close>

lemma exact_policy_evaluation:
  assumes m: "model_shaped (Ny, Nz) (y_grid, z_grid, Q)"
    and s: "has_shape \<sigma> [Ny, Nz]" and range: "policy_in_range \<sigma> Ny Nz"
    and Ny: "0 < Ny" and Nz: "0 < Nz" and b: "0 < \<beta>" "\<beta> < 1" and Q: "row_stochastic Q Nz"
    and exact1: "\<And>A b x. bicgstab A b = Inr x \<Longrightarrow> has_shape x (shape b) \<and> A x = Inr b"
    and exact2: "\<And>M b x. solve M b = Inr x \<Longrightarrow> has_shape x (shape b) \<and> matvec M x = Inr b"
    and g1: "get_value bicgstab \<sigma> (\<beta>, a_0, a_1, \<gamma>, c) (Ny, Nz) (y_grid, z_grid, Q) = Inr v1"
    and g2: "get_value_matrix_version solve \<sigma> (\<beta>, a_0, a_1, \<gamma>, c) (Ny, Nz) (y_grid, z_grid, Q)
               = Inr v2"
  shows "v1 = v2 \<and>
     T_sigma v1 \<sigma> (\<beta>, a_0, a_1, \<gamma>, c) (Ny, Nz) (y_grid, z_grid, Q) = Inr v1 \<and>
     (\<forall>w. has_shape w [Ny, Nz] \<longrightarrow>
        T_sigma w \<sigma> (\<beta>, a_0, a_1, \<gamma>, c) (Ny, Nz) (y_grid, z_grid, Q) = Inr w \<longrightarrow> w = v1)"
proof -
  have "has_shape v1 [Ny, Nz] \<and>
      T_sigma v1 \<sigma> (\<beta>, a_0, a_1, \<gamma>, c) (Ny, Nz) (y_grid, z_grid, Q) = Inr v1"
    by (rule get_value_fixed_point [OF m s Ny Nz _ g1]) (rule exact1)
  then have v1: "has_shape v1 [Ny, Nz]"
    and f1: "T_sigma v1 \<sigma> (\<beta>, a_0, a_1, \<gamma>, c) (Ny, Nz) (y_grid, z_grid, Q) = Inr v1"
    by simp_all
  have "has_shape v2 [Ny, Nz] \<and>
      T_sigma v2 \<sigma> (\<beta>, a_0, a_1, \<gamma>, c) (Ny, Nz) (y_grid, z_grid, Q) = Inr v2"
    by (rule get_value_matrix_version_fixed_point [OF m s Ny Nz range _ g2]) (rule exact2)
  then have v2: "has_shape v2 [Ny, Nz]"
    and f2: "T_sigma v2 \<sigma> (\<beta>, a_0, a_1, \<gamma>, c) (Ny, Nz) (y_grid, z_grid, Q) = Inr v2"
    by simp_all
  have b0: "0 \<le> \<beta>" using b(1) by simp
  have "v1 = v2"
    by (rule T_sigma_fixed_point_unique [OF m v1 v2 s b0 b(2) Q f1 f2])
  moreover have "w = v1"
    if "has_shape w [Ny, Nz]" "T_sigma w \<sigma> (\<beta>, a_0, a_1, \<gamma>, c) (Ny, Nz) (y_grid, z_grid, Q) = Inr w"
    for w
    by (rule T_sigma_fixed_point_unique [OF m that(1) v1 s b0 b(2) Q that(2) f1])
  ultimately show ?thesis using f1 by blast
qed

end
